theory Spec2Isabelle
  imports Main "HOL-Library.AList" "HOL-Library.Sublist" "HOL-Library.Word"
begin

section \<open>pstore: a key-value cache mirrored to one file per key\<close>

text \<open>
  The development embeds the cache engine (type \<^verbatim>\<open>PersistentStorage\<close> and its methods), the
  error helpers \<^verbatim>\<open>IsPStoreError\<close> and \<^verbatim>\<open>errorf\<close>, and the wrappers of \<^verbatim>\<open>serializable.go\<close>.

  Conventions of the embedding:
  \<^item> a Go \<^verbatim>\<open>error\<close> is a \<open>string option\<close>: \<open>None\<close> is \<^verbatim>\<open>nil\<close>, \<open>Some m\<close> an error whose
    \<^verbatim>\<open>Error()\<close> text is \<open>m\<close> (the predicates of the library inspect nothing else);
  \<^item> a call either returns, panics, or blocks for ever on the mutex: type \<open>outcome\<close>;
  \<^item> the receiver and the file system are passed in and returned updated, also when the call
    panics or blocks (the mutations made up to that point have happened);
  \<^item> the gob encoder, the operating system's files and the iteration order of a Go map are
    not code of this library: the codec is a parameter, the file system is the small model
    below with an oracle for refusals, and the order in which a \<^verbatim>\<open>range\<close> over the map yields
    the entries is fixed by a number supplied by the caller of the model.
\<close>

subsection \<open>Go values as seen through \<^verbatim>\<open>interface{}\<close> and \<^verbatim>\<open>reflect\<close>\<close>

datatype gtype =
    TInt | TString | TBool
  | TStruct string
  | TSlice gtype
  | TMap gtype gtype
  | TPtr gtype
  | TIface

text \<open>
  \<open>VNil\<close> is the nil interface value. \<open>VPtr t v\<close> is a non-nil pointer to a location of static
  type \<open>t\<close> that currently holds \<open>v\<close>; \<open>VNilPtr t\<close> is the nil pointer of type \<open>*t\<close>.
  Pointer chains are finite (a self-referential pointer type is not representable).
\<close>

datatype gval =
    VNil
  | VInt int
  | VString string
  | VBool bool
  | VStruct string "(string \<times> gval) list"
  | VSlice gtype "gval list"
  | VMap gtype gtype "(gval \<times> gval) list"
  | VPtr gtype gval
  | VNilPtr gtype

text \<open>\<^verbatim>\<open>reflect.TypeOf\<close>: the dynamic type, \<open>None\<close> for the nil interface.\<close>

fun reflect_TypeOf :: "gval \<Rightarrow> gtype option" where
  "reflect_TypeOf VNil = None"
| "reflect_TypeOf (VInt _) = Some TInt"
| "reflect_TypeOf (VString _) = Some TString"
| "reflect_TypeOf (VBool _) = Some TBool"
| "reflect_TypeOf (VStruct n _) = Some (TStruct n)"
| "reflect_TypeOf (VSlice t _) = Some (TSlice t)"
| "reflect_TypeOf (VMap k v _) = Some (TMap k v)"
| "reflect_TypeOf (VPtr t _) = Some (TPtr t)"
| "reflect_TypeOf (VNilPtr t) = Some (TPtr t)"

fun is_Ptr :: "gtype \<Rightarrow> bool" where
  "is_Ptr (TPtr _) = True"
| "is_Ptr _ = False"

text \<open>The text \<^verbatim>\<open>%v\<close> prints for a \<^verbatim>\<open>reflect.Type\<close>.\<close>

fun type_String :: "gtype \<Rightarrow> string" where
  "type_String TInt = ''int''"
| "type_String TString = ''string''"
| "type_String TBool = ''bool''"
| "type_String (TStruct n) = n"
| "type_String (TSlice t) = ''[]'' @ type_String t"
| "type_String (TMap k v) = ''map['' @ type_String k @ '']'' @ type_String v"
| "type_String (TPtr t) = ''*'' @ type_String t"
| "type_String TIface = ''interface {}''"

text \<open>
  \<^verbatim>\<open>reflect.Value.Set\<close> accepts a value whose type is the type of the location, or any
  value when the location has interface type; it panics on the zero \<^verbatim>\<open>Value\<close> that
  \<^verbatim>\<open>reflect.ValueOf(nil)\<close> yields and on every other type.
\<close>

definition assignable :: "gval \<Rightarrow> gtype \<Rightarrow> bool" where
  "assignable it t = (case reflect_TypeOf it of None \<Rightarrow> False | Some s \<Rightarrow> s = t \<or> t = TIface)"

datatype 'a outcome = Returns 'a | Panics | Blocks

type_synonym error = "string option"

subsection \<open>The collaborators: gob and the file system\<close>

type_synonym bytes = "8 word list"

text \<open>
  \<open>gob_Encode v\<close> is the buffer and the error of \<^verbatim>\<open>Encoder.Encode\<close>; \<open>gob_Decode bs out\<close> is
  the error of \<^verbatim>\<open>Decoder.Decode\<close> and the argument \<open>out\<close> as the decoder leaves it.
\<close>

record gob =
  gob_Encode :: "gval \<Rightarrow> bytes \<times> error"
  gob_Decode :: "bytes \<Rightarrow> gval \<Rightarrow> error \<times> gval"

definition serialize :: "gob \<Rightarrow> gval \<Rightarrow> bytes \<times> error" where
  "serialize g it = gob_Encode g it"

definition deserialize :: "gob \<Rightarrow> bytes \<Rightarrow> gval \<Rightarrow> error \<times> gval" where
  "deserialize g data out = gob_Decode g data out"

datatype fnode = RegFile bytes | SubDir

datatype fs_op = OpReadDir | OpReadFile | OpMkdirAll | OpWriteFile | OpRemoveAll

text \<open>
  A file is addressed by its directory and its name in that directory; \<open>dirs\<close> maps every
  existing directory to its entries. \<open>fault op p\<close> is the oracle: \<open>Some m\<close> makes the
  operation \<open>op\<close> on the path \<open>p\<close> fail with the text \<open>m\<close> (permissions, I/O errors), whatever
  the directory holds. A listing yields the entries in the order the model keeps them; the
  library promises no order, and nothing below depends on one.
\<close>

record filesys =
  dirs :: "string \<rightharpoonup> (string \<times> fnode) list"
  fault :: "fs_op \<Rightarrow> string \<Rightarrow> string option"

type_synonym fpath = "string \<times> string"

definition path_String :: "fpath \<Rightarrow> string" where
  "path_String p = (if fst p = [] then snd p else fst p @ ''/'' @ snd p)"

definition enoent :: "string \<Rightarrow> string \<Rightarrow> string" where
  "enoent opn p = opn @ '' '' @ p @ '': no such file or directory''"

definition eisdir :: "string \<Rightarrow> string \<Rightarrow> string" where
  "eisdir opn p = opn @ '' '' @ p @ '': is a directory''"

text \<open>\<^verbatim>\<open>os.ReadDir\<close>: the empty path names no directory.\<close>

definition os_ReadDir :: "filesys \<Rightarrow> string \<Rightarrow> string + (string \<times> fnode) list" where
  "os_ReadDir fs d =
     (if d = [] then Inl (enoent ''open'' d)
      else case fault fs OpReadDir d of
             Some m \<Rightarrow> Inl m
           | None \<Rightarrow> (case dirs fs d of
                        None \<Rightarrow> Inl (enoent ''open'' d)
                      | Some ents \<Rightarrow> Inr ents))"

text \<open>\<^verbatim>\<open>os.ReadFile\<close>: the flag of the error says whether \<^verbatim>\<open>os.IsNotExist\<close> holds of it.\<close>

definition os_ReadFile :: "filesys \<Rightarrow> fpath \<Rightarrow> (bool \<times> string) + bytes" where
  "os_ReadFile fs p =
     (case fault fs OpReadFile (path_String p) of
        Some m \<Rightarrow> Inl (False, m)
      | None \<Rightarrow> (case dirs fs (fst p) of
                   None \<Rightarrow> Inl (True, enoent ''open'' (path_String p))
                 | Some ents \<Rightarrow> (case map_of ents (snd p) of
                                  None \<Rightarrow> Inl (True, enoent ''open'' (path_String p))
                                | Some SubDir \<Rightarrow> Inl (False, eisdir ''read'' (path_String p))
                                | Some (RegFile b) \<Rightarrow> Inr b)))"

definition os_MkdirAll :: "filesys \<Rightarrow> string \<Rightarrow> error \<times> filesys" where
  "os_MkdirAll fs d =
     (if d = [] then (Some (enoent ''mkdir'' d), fs)
      else case fault fs OpMkdirAll d of
             Some m \<Rightarrow> (Some m, fs)
           | None \<Rightarrow> (case dirs fs d of
                        None \<Rightarrow> (None, fs\<lparr>dirs := (dirs fs)(d \<mapsto> [])\<rparr>)
                      | Some _ \<Rightarrow> (None, fs)))"

definition os_WriteFile :: "filesys \<Rightarrow> fpath \<Rightarrow> bytes \<Rightarrow> error \<times> filesys" where
  "os_WriteFile fs p data =
     (case fault fs OpWriteFile (path_String p) of
        Some m \<Rightarrow> (Some m, fs)
      | None \<Rightarrow> (case dirs fs (fst p) of
                   None \<Rightarrow> (Some (enoent ''open'' (path_String p)), fs)
                 | Some ents \<Rightarrow> (case map_of ents (snd p) of
                                  Some SubDir \<Rightarrow> (Some (eisdir ''open'' (path_String p)), fs)
                                | _ \<Rightarrow> (None, fs\<lparr>dirs := (dirs fs)(fst p \<mapsto>
                                                    AList.update (snd p) (RegFile data) ents)\<rparr>))))"

text \<open>\<^verbatim>\<open>os.RemoveAll\<close>: removing what does not exist is no error.\<close>

definition os_RemoveAll :: "filesys \<Rightarrow> fpath \<Rightarrow> error \<times> filesys" where
  "os_RemoveAll fs p =
     (case fault fs OpRemoveAll (path_String p) of
        Some m \<Rightarrow> (Some m, fs)
      | None \<Rightarrow> (case dirs fs (fst p) of
                   None \<Rightarrow> (None, fs)
                 | Some ents \<Rightarrow> (None, fs\<lparr>dirs := (dirs fs)(fst p \<mapsto>
                                                    AList.delete (snd p) ents)\<rparr>)))"

fun IsDir :: "fnode \<Rightarrow> bool" where
  "IsDir SubDir = True"
| "IsDir (RegFile _) = False"

subsection \<open>Strings\<close>

fun strings_Contains :: "string \<Rightarrow> string \<Rightarrow> bool" where
  "strings_Contains [] sub = (sub = [])"
| "strings_Contains (c # cs) sub = (prefix sub (c # cs) \<or> strings_Contains cs sub)"

definition strings_HasPrefix :: "string \<Rightarrow> string \<Rightarrow> bool" where
  "strings_HasPrefix s p = prefix p s"

definition strings_HasSuffix :: "string \<Rightarrow> string \<Rightarrow> bool" where
  "strings_HasSuffix s x = suffix x s"

definition strings_TrimPrefix :: "string \<Rightarrow> string \<Rightarrow> string" where
  "strings_TrimPrefix s p = (if prefix p s then drop (length p) s else s)"

definition strings_TrimSuffix :: "string \<Rightarrow> string \<Rightarrow> string" where
  "strings_TrimSuffix s x = (if suffix x s then take (length s - length x) s else s)"

subsection \<open>The cache\<close>

definition MEM_ITEMS_UNLIMITED :: int where
  "MEM_ITEMS_UNLIMITED = - 1"

definition MEM_ITEMS_DEFAULT :: int where
  "MEM_ITEMS_DEFAULT = 100"

definition MemoryItemsCount :: "int \<Rightarrow> int" where
  "MemoryItemsCount count = (if count < 0 then MEM_ITEMS_UNLIMITED else count)"

text \<open>
  The map \<^verbatim>\<open>cache\<close> is an association list that the operations keep free of duplicate keys
  (\<open>AList.update\<close>, \<open>AList.delete\<close>); \<^verbatim>\<open>len\<close> is its length. \<open>mutex\<close> is \<open>True\<close> while the
  \<^verbatim>\<open>sync.Mutex\<close> is locked.
\<close>

record PersistentStorage =
  MaxMemItems :: int
  ThreadSafe :: bool
  SaveToDiskOnSet :: bool
  path :: string
  name :: string
  cache :: "(string \<times> gval) list"
  inMemory :: bool
  mutex :: bool

definition New :: "string \<Rightarrow> string \<Rightarrow> PersistentStorage" where
  "New p n = \<lparr>MaxMemItems = MEM_ITEMS_DEFAULT, ThreadSafe = False, SaveToDiskOnSet = True,
              path = p, name = n, cache = [], inMemory = False, mutex = False\<rparr>"

definition NewInMemory :: "string \<Rightarrow> PersistentStorage" where
  "NewInMemory n = \<lparr>MaxMemItems = MEM_ITEMS_UNLIMITED, ThreadSafe = False,
                    SaveToDiskOnSet = False, path = [], name = n, cache = [],
                    inMemory = True, mutex = False\<rparr>"

text \<open>
  A \<^verbatim>\<open>range\<close> over a Go map starts at a position the runtime draws at random and goes round:
  \<open>r\<close> is that draw.
\<close>

definition map_range :: "nat \<Rightarrow> (string \<times> gval) list \<Rightarrow> (string \<times> gval) list" where
  "map_range r m = rotate r m"

text \<open>
  The rotation is used where the loop breaks after the first key, which can be any key of the
  map. A loop that runs to the end can meet the entries in any order: \<open>map_range_all r m\<close> is
  the order with the number \<open>r\<close>, which takes the entry at the position \<open>r mod length m\<close> first
  and goes on with \<open>r div length m\<close> on the entries that are left.
\<close>

primrec pick_order :: "nat \<Rightarrow> nat \<Rightarrow> 'a list \<Rightarrow> 'a list" where
  "pick_order 0 r m = []"
| "pick_order (Suc n) r m =
     (if m = [] then []
      else (m ! (r mod length m))
           # pick_order n (r div length m)
               (take (r mod length m) m @ drop (Suc (r mod length m)) m))"

definition map_range_all :: "nat \<Rightarrow> (string \<times> gval) list \<Rightarrow> (string \<times> gval) list" where
  "map_range_all r m = pick_order (length m) r m"

subsection \<open>Errors\<close>

definition error_prefix :: string where
  "error_prefix = ''pstore: ''"

text \<open>The slice expression panics when the text is shorter than the prefix.\<close>

definition IsPStoreError :: "error \<Rightarrow> bool outcome" where
  "IsPStoreError err =
     (case err of
        None \<Rightarrow> Returns False
      | Some m \<Rightarrow> if length m < length error_prefix then Panics
                  else Returns (take (length error_prefix) m = error_prefix))"

text \<open>
  \<^verbatim>\<open>errorf\<close> takes the message as its call site formats it: every argument of the library's
  formats is printed with \<^verbatim>\<open>%s\<close> or \<^verbatim>\<open>%v\<close>, so the text is the concatenation written at the
  call. The code pastes the namespace into the format string: for a namespace that holds a
  \<^verbatim>\<open>%\<close> the formatter reads it as a verb, takes the arguments in another order and the text
  differs from the concatenation. Such a namespace is outside the model: wherever a statement
  below depends on the text of an error, it assumes that the namespace holds no \<^verbatim>\<open>%\<close>.
\<close>

definition errorf :: "PersistentStorage \<Rightarrow> string \<Rightarrow> error" where
  "errorf ps msg = Some (error_prefix @ name ps @ '': '' @ msg)"

text \<open>\<^verbatim>\<open>IsPStoreError(err) && strings.Contains(err.Error(), marker)\<close>\<close>

definition is_kind :: "string \<Rightarrow> error \<Rightarrow> bool outcome" where
  "is_kind marker err =
     (case IsPStoreError err of
        Returns True \<Rightarrow> (case err of
                           None \<Rightarrow> Panics
                         | Some m \<Rightarrow> Returns (strings_Contains m marker))
      | r \<Rightarrow> r)"

definition error_read_files_failed :: string where
  "error_read_files_failed = ''failed to read files''"

definition IsReadFilesFailed :: "error \<Rightarrow> bool outcome" where
  "IsReadFilesFailed err = is_kind error_read_files_failed err"

definition error_delete_failed :: string where
  "error_delete_failed = ''failed to delete''"

definition IsDeleteFailed :: "error \<Rightarrow> bool outcome" where
  "IsDeleteFailed err = is_kind error_delete_failed err"

definition error_save_to_disk_failed :: string where
  "error_save_to_disk_failed = ''failed to save''"

definition IsSaveToDiskFailed :: "error \<Rightarrow> bool outcome" where
  "IsSaveToDiskFailed err = is_kind error_save_to_disk_failed err"

definition error_serialize_failed :: string where
  "error_serialize_failed = ''failed to serialize''"

definition IsSerializeFailed :: "error \<Rightarrow> bool outcome" where
  "IsSerializeFailed err = is_kind error_serialize_failed err"

definition error_expected_pointer :: string where
  "error_expected_pointer = ''expected pointer''"

definition IsExpectedPointer :: "error \<Rightarrow> bool outcome" where
  "IsExpectedPointer err = is_kind error_expected_pointer err"

definition error_key_not_found :: string where
  "error_key_not_found = ''key not found''"

definition IsKeyNotFound :: "error \<Rightarrow> bool outcome" where
  "IsKeyNotFound err = is_kind error_key_not_found err"

definition error_read_from_disk_failed :: string where
  "error_read_from_disk_failed = ''failed to read from disk''"

definition IsReadFromDiskFailed :: "error \<Rightarrow> bool outcome" where
  "IsReadFromDiskFailed err = is_kind error_read_from_disk_failed err"

definition error_deserialize_failed :: string where
  "error_deserialize_failed = ''failed to deserialize''"

definition IsDeserializeFailed :: "error \<Rightarrow> bool outcome" where
  "IsDeserializeFailed err = is_kind error_deserialize_failed err"

text \<open>The eight kinds side by side: the marker of each and its predicate.\<close>

datatype kind =
    ReadFilesFailed | DeleteFailed | SaveToDiskFailed | SerializeFailed
  | ExpectedPointer | KeyNotFound | ReadFromDiskFailed | DeserializeFailed

fun marker :: "kind \<Rightarrow> string" where
  "marker ReadFilesFailed = error_read_files_failed"
| "marker DeleteFailed = error_delete_failed"
| "marker SaveToDiskFailed = error_save_to_disk_failed"
| "marker SerializeFailed = error_serialize_failed"
| "marker ExpectedPointer = error_expected_pointer"
| "marker KeyNotFound = error_key_not_found"
| "marker ReadFromDiskFailed = error_read_from_disk_failed"
| "marker DeserializeFailed = error_deserialize_failed"

fun Is :: "kind \<Rightarrow> error \<Rightarrow> bool outcome" where
  "Is ReadFilesFailed err = IsReadFilesFailed err"
| "Is DeleteFailed err = IsDeleteFailed err"
| "Is SaveToDiskFailed err = IsSaveToDiskFailed err"
| "Is SerializeFailed err = IsSerializeFailed err"
| "Is ExpectedPointer err = IsExpectedPointer err"
| "Is KeyNotFound err = IsKeyNotFound err"
| "Is ReadFromDiskFailed err = IsReadFromDiskFailed err"
| "Is DeserializeFailed err = IsDeserializeFailed err"

text \<open>
  An error of the kind \<open>K\<close> is told apart from the other kinds: it is a pstore error, the
  predicate of \<open>K\<close> accepts it, and the predicate of another kind accepts it only when the
  marker of that kind occurs in the namespace, in the key or in the text of the cause.
\<close>

definition told_apart :: "kind \<Rightarrow> string \<Rightarrow> string \<Rightarrow> string \<Rightarrow> error \<Rightarrow> bool" where
  "told_apart K ns key cause err \<longleftrightarrow>
     IsPStoreError err = Returns True
     \<and> (\<forall>k. Is k err = Returns (k = K \<or> sublist (marker k) ns \<or> sublist (marker k) key
                                   \<or> sublist (marker k) cause))"

subsection \<open>The mutex\<close>

text \<open>
  \<^verbatim>\<open>Lock\<close> on a locked mutex waits until another goroutine unlocks it; within one sequence
  of calls nobody does, so the call never returns: \<open>None\<close>. \<^verbatim>\<open>Unlock\<close> is only ever
  reached with the mutex held.
\<close>

definition mutex_Lock :: "PersistentStorage \<Rightarrow> PersistentStorage option" where
  "mutex_Lock ps = (if mutex ps then None else Some (ps\<lparr>mutex := True\<rparr>))"

definition mutex_Unlock :: "PersistentStorage \<Rightarrow> PersistentStorage" where
  "mutex_Unlock ps = ps\<lparr>mutex := False\<rparr>"

subsection \<open>File names\<close>

definition cache_ext :: string where
  "cache_ext = ''.pcache''"

definition getCacheFilename :: "PersistentStorage \<Rightarrow> string \<Rightarrow> string" where
  "getCacheFilename ps key = name ps @ ''_'' @ key @ cache_ext"

text \<open>
  \<^verbatim>\<open>path.Join(ps.path, file)\<close> is the file \<open>file\<close> of the directory \<open>ps.path\<close>: the model is
  about namespaces and keys without a path separator.
\<close>

definition getCachePath :: "PersistentStorage \<Rightarrow> string \<Rightarrow> fpath" where
  "getCachePath ps key = (path ps, getCacheFilename ps key)"

subsection \<open>Len, Has, Keys\<close>

definition is_cache_file :: "PersistentStorage \<Rightarrow> string \<times> fnode \<Rightarrow> bool" where
  "is_cache_file ps file =
     (\<not> IsDir (snd file) \<and> strings_HasPrefix (fst file) (name ps @ ''_'')
        \<and> strings_HasSuffix (fst file) cache_ext)"

definition Len_locked :: "PersistentStorage \<Rightarrow> filesys \<Rightarrow> int \<times> error" where
  "Len_locked ps fs =
     (case os_ReadDir fs (path ps) of
        Inl e \<Rightarrow> (- 1, errorf ps (error_read_files_failed @ '': '' @ e))
      | Inr files \<Rightarrow> (int (length (filter (is_cache_file ps) files)), None))"

definition Len :: "PersistentStorage \<Rightarrow> filesys \<Rightarrow> (int \<times> error) outcome \<times> PersistentStorage" where
  "Len ps fs =
     (if ThreadSafe ps then
        (case mutex_Lock ps of
           None \<Rightarrow> (Blocks, ps)
         | Some ps1 \<Rightarrow> (Returns (Len_locked ps1 fs), mutex_Unlock ps1))
      else (Returns (Len_locked ps fs), ps))"

definition Has_locked :: "PersistentStorage \<Rightarrow> filesys \<Rightarrow> string \<Rightarrow> bool \<times> error" where
  "Has_locked ps fs key =
     (case map_of (cache ps) key of
        Some _ \<Rightarrow> (True, None)
      | None \<Rightarrow>
          (case os_ReadDir fs (path ps) of
             Inl e \<Rightarrow> (False, errorf ps (error_read_files_failed @ '': '' @ e))
           | Inr files \<Rightarrow>
               (list_ex (\<lambda>file. \<not> IsDir (snd file) \<and> getCacheFilename ps key = fst file) files,
                None)))"

definition Has :: "PersistentStorage \<Rightarrow> filesys \<Rightarrow> string
    \<Rightarrow> (bool \<times> error) outcome \<times> PersistentStorage" where
  "Has ps fs key =
     (if ThreadSafe ps then
        (case mutex_Lock ps of
           None \<Rightarrow> (Blocks, ps)
         | Some ps1 \<Rightarrow> (Returns (Has_locked ps1 fs key), mutex_Unlock ps1))
      else (Returns (Has_locked ps fs key), ps))"

definition Keys_locked :: "PersistentStorage \<Rightarrow> filesys \<Rightarrow> string list \<times> error" where
  "Keys_locked ps fs =
     (case os_ReadDir fs (path ps) of
        Inl e \<Rightarrow> ([], errorf ps (error_read_files_failed @ '': '' @ e))
      | Inr files \<Rightarrow>
          (map (\<lambda>file. strings_TrimSuffix (strings_TrimPrefix (fst file) (name ps @ ''_'')) cache_ext)
               (filter (is_cache_file ps) files),
           None))"

definition Keys :: "PersistentStorage \<Rightarrow> filesys
    \<Rightarrow> (string list \<times> error) outcome \<times> PersistentStorage" where
  "Keys ps fs =
     (if ThreadSafe ps then
        (case mutex_Lock ps of
           None \<Rightarrow> (Blocks, ps)
         | Some ps1 \<Rightarrow> (Returns (Keys_locked ps1 fs), mutex_Unlock ps1))
      else (Returns (Keys_locked ps fs), ps))"

subsection \<open>Delete\<close>

definition Delete :: "PersistentStorage \<Rightarrow> filesys \<Rightarrow> string
    \<Rightarrow> error outcome \<times> PersistentStorage \<times> filesys" where
  "Delete ps fs key =
     (let ps1 = ps\<lparr>cache := AList.delete key (cache ps)\<rparr>
      in if inMemory ps1 then (Returns None, ps1, fs)
         else (case os_RemoveAll fs (getCachePath ps1 key) of
                 (Some e, fs1) \<Rightarrow>
                   (Returns (errorf ps1 (error_delete_failed @ '' '' @ key @ '': '' @ e)), ps1, fs1)
               | (None, fs1) \<Rightarrow> (Returns None, ps1, fs1)))"

subsection \<open>Saving\<close>

definition saveToDisk :: "gob \<Rightarrow> PersistentStorage \<Rightarrow> filesys \<Rightarrow> string \<Rightarrow> gval
    \<Rightarrow> error \<times> filesys" where
  "saveToDisk g ps fs key val =
     (if inMemory ps then (None, fs)
      else (case os_MkdirAll fs (path ps) of
              (Some e, fs1) \<Rightarrow>
                (errorf ps (error_save_to_disk_failed @ '' '' @ key @ '': '' @ e), fs1)
            | (None, fs1) \<Rightarrow>
                (case serialize g val of
                   (bs, Some e) \<Rightarrow>
                     (errorf ps (error_serialize_failed @ '' '' @ key @ '': '' @ e), fs1)
                 | (bs, None) \<Rightarrow>
                     (case os_WriteFile fs1 (getCachePath ps key) bs of
                        (Some e, fs2) \<Rightarrow>
                          (errorf ps (error_save_to_disk_failed @ '' '' @ key @ '': '' @ e), fs2)
                      | (None, fs2) \<Rightarrow> (None, fs2)))))"

text \<open>
  The step at which \<open>saveToDisk\<close> fails on a disk-backed cache, as the kind of the error it
  builds there and the text of the cause it prints.
\<close>

definition save_failure :: "gob \<Rightarrow> PersistentStorage \<Rightarrow> filesys \<Rightarrow> string \<Rightarrow> gval
    \<Rightarrow> kind \<Rightarrow> string \<Rightarrow> bool" where
  "save_failure g ps fs key val K cause \<longleftrightarrow>
     (case os_MkdirAll fs (path ps) of
        (Some e, fs1) \<Rightarrow> K = SaveToDiskFailed \<and> cause = e
      | (None, fs1) \<Rightarrow>
          (case serialize g val of
             (bs, Some e) \<Rightarrow> K = SerializeFailed \<and> cause = e
           | (bs, None) \<Rightarrow>
               (case os_WriteFile fs1 (getCachePath ps key) bs of
                  (Some e, fs2) \<Rightarrow> K = SaveToDiskFailed \<and> cause = e
                | (None, fs2) \<Rightarrow> False)))"

text \<open>
  The loop of \<^verbatim>\<open>SaveToDisk\<close> over the entries, in the order the \<^verbatim>\<open>range\<close> yields them
  (\<open>map_range_all\<close>: any order).
\<close>

fun saveEntries :: "gob \<Rightarrow> PersistentStorage \<Rightarrow> filesys \<Rightarrow> (string \<times> gval) list
    \<Rightarrow> error \<times> filesys" where
  "saveEntries g ps fs [] = (None, fs)"
| "saveEntries g ps fs (kv # kvs) =
     (case saveToDisk g ps fs (fst kv) (snd kv) of
        (Some e, fs1) \<Rightarrow> (Some e, fs1)
      | (None, fs1) \<Rightarrow> saveEntries g ps fs1 kvs)"

text \<open>
  \<^verbatim>\<open>SaveToDisk\<close>, \<^verbatim>\<open>Set\<close> and \<^verbatim>\<open>Get\<close> defer \<^verbatim>\<open>ps.mutex.Lock()\<close>: the deferred call runs when
  the body has returned or panicked, and what the body produced reaches the caller only if
  that second \<^verbatim>\<open>Lock\<close> returns.
\<close>

definition SaveToDisk :: "gob \<Rightarrow> nat \<Rightarrow> PersistentStorage \<Rightarrow> filesys
    \<Rightarrow> error outcome \<times> PersistentStorage \<times> filesys" where
  "SaveToDisk g r ps fs =
     (if SaveToDiskOnSet ps then (Returns None, ps, fs)
      else if ThreadSafe ps then
        (case mutex_Lock ps of
           None \<Rightarrow> (Blocks, ps, fs)
         | Some ps1 \<Rightarrow>
             (case saveEntries g ps1 fs (map_range_all r (cache ps1)) of
                (err, fs1) \<Rightarrow>
                  (case mutex_Lock ps1 of
                     None \<Rightarrow> (Blocks, ps1, fs1)
                   | Some ps2 \<Rightarrow> (Returns err, ps2, fs1))))
      else (case saveEntries g ps fs (map_range_all r (cache ps)) of
              (err, fs1) \<Rightarrow> (Returns err, ps, fs1)))"

subsection \<open>Set\<close>

text \<open>
  The eviction loop deletes the first key the \<^verbatim>\<open>range\<close> yields and breaks.
\<close>

definition evict_one :: "nat \<Rightarrow> (string \<times> gval) list \<Rightarrow> (string \<times> gval) list" where
  "evict_one r m = (case map_range r m of [] \<Rightarrow> m | kv # _ \<Rightarrow> AList.delete (fst kv) m)"

definition set_entry :: "gob \<Rightarrow> nat \<Rightarrow> PersistentStorage \<Rightarrow> filesys \<Rightarrow> string \<Rightarrow> gval
    \<Rightarrow> error \<times> PersistentStorage \<times> filesys" where
  "set_entry g r ps fs key val =
     (let ps1 = ps\<lparr>cache := AList.update key val (cache ps)\<rparr>;
          saved = (if SaveToDiskOnSet ps1 then saveToDisk g ps1 fs key val else (None, fs))
      in case saved of
           (Some e, fs1) \<Rightarrow> (Some e, ps1, fs1)
         | (None, fs1) \<Rightarrow>
             if MaxMemItems ps1 \<noteq> MEM_ITEMS_UNLIMITED
                \<and> int (length (cache ps1)) > MaxMemItems ps1
             then (None, ps1\<lparr>cache := evict_one r (cache ps1)\<rparr>, fs1)
             else (None, ps1, fs1))"

text \<open>
  The loop \<^verbatim>\<open>for reflect.TypeOf(it).Kind() == reflect.Ptr\<close>: \<^verbatim>\<open>reflect.TypeOf(nil)\<close> is the
  nil \<^verbatim>\<open>Type\<close>, whose \<^verbatim>\<open>Kind\<close> method cannot be called; \<^verbatim>\<open>Elem()\<close> of a nil pointer is the
  zero \<^verbatim>\<open>Value\<close>, whose \<^verbatim>\<open>Interface\<close> method panics.
\<close>

fun unwrap :: "gval \<Rightarrow> gval outcome" where
  "unwrap VNil = Panics"
| "unwrap (VNilPtr t) = Panics"
| "unwrap (VPtr t v) = unwrap v"
| "unwrap v = Returns v"

definition Set_locked :: "gob \<Rightarrow> nat \<Rightarrow> PersistentStorage \<Rightarrow> filesys \<Rightarrow> string \<Rightarrow> gval
    \<Rightarrow> error outcome \<times> PersistentStorage \<times> filesys" where
  "Set_locked g r ps fs key val =
     (case unwrap val of
        Returns it \<Rightarrow> (case set_entry g r ps fs key it of (err, ps1, fs1) \<Rightarrow> (Returns err, ps1, fs1))
      | Panics \<Rightarrow> (Panics, ps, fs)
      | Blocks \<Rightarrow> (Blocks, ps, fs))"

definition Set :: "gob \<Rightarrow> nat \<Rightarrow> PersistentStorage \<Rightarrow> filesys \<Rightarrow> string \<Rightarrow> gval
    \<Rightarrow> error outcome \<times> PersistentStorage \<times> filesys" where
  "Set g r ps fs key val =
     (if ThreadSafe ps then
        (case mutex_Lock ps of
           None \<Rightarrow> (Blocks, ps, fs)
         | Some ps1 \<Rightarrow>
             (case Set_locked g r ps1 fs key val of
                (res, ps2, fs2) \<Rightarrow>
                  (case mutex_Lock ps2 of
                     None \<Rightarrow> (Blocks, ps2, fs2)
                   | Some ps3 \<Rightarrow> (res, ps3, fs2))))
      else Set_locked g r ps fs key val)"

subsection \<open>Get\<close>

definition readFromDisk :: "gob \<Rightarrow> PersistentStorage \<Rightarrow> filesys \<Rightarrow> gval \<Rightarrow> string
    \<Rightarrow> error \<times> gval" where
  "readFromDisk g ps fs out key =
     (if inMemory ps then (errorf ps (error_key_not_found @ '' '' @ key), out)
      else (case os_ReadFile fs (getCachePath ps key) of
              Inl e \<Rightarrow>
                if fst e then (errorf ps (error_key_not_found @ '' '' @ key), out)
                else (errorf ps (error_read_from_disk_failed @ '' '' @ key @ '': '' @ snd e), out)
            | Inr bs \<Rightarrow>
                (case deserialize g bs out of
                   (Some e, out1) \<Rightarrow>
                     (errorf ps (error_deserialize_failed @ '' '' @ key @ '': '' @ e), out1)
                 | (None, out1) \<Rightarrow> (None, out1))))"

text \<open>
  The branch in which \<open>readFromDisk\<close> fails, as the kind of the error it builds there and the
  text of the cause it prints (none for a key that is not found).
\<close>

definition read_failure :: "gob \<Rightarrow> PersistentStorage \<Rightarrow> filesys \<Rightarrow> gval \<Rightarrow> string
    \<Rightarrow> kind \<Rightarrow> string \<Rightarrow> bool" where
  "read_failure g ps fs out key K cause \<longleftrightarrow>
     (if inMemory ps then K = KeyNotFound \<and> cause = []
      else (case os_ReadFile fs (getCachePath ps key) of
              Inl e \<Rightarrow>
                if fst e then K = KeyNotFound \<and> cause = []
                else K = ReadFromDiskFailed \<and> cause = snd e
            | Inr bs \<Rightarrow>
                (case deserialize g bs out of
                   (Some e, out1) \<Rightarrow> K = DeserializeFailed \<and> cause = e
                 | (None, out1) \<Rightarrow> False)))"

text \<open>
  \<open>get\<close> returns the error and the argument \<open>out\<close> with what the location holds afterwards.
  \<^verbatim>\<open>outReflect.Type()\<close> panics on the zero \<^verbatim>\<open>Value\<close> of a nil argument;
  \<^verbatim>\<open>outReflect.Elem()\<close> of a nil pointer is the zero \<^verbatim>\<open>Value\<close>, on which \<^verbatim>\<open>Interface\<close> and
  \<^verbatim>\<open>Set\<close> panic.
\<close>

definition get :: "gob \<Rightarrow> PersistentStorage \<Rightarrow> filesys \<Rightarrow> gval \<Rightarrow> string
    \<Rightarrow> (error \<times> gval) outcome \<times> PersistentStorage" where
  "get g ps fs out key =
     (case reflect_TypeOf out of
        None \<Rightarrow> (Panics, ps)
      | Some t \<Rightarrow>
          if \<not> is_Ptr t then
            (Returns (errorf ps (error_expected_pointer @ '' but got type '' @ type_String t), out),
             ps)
          else
            (case map_of (cache ps) key of
               None \<Rightarrow>
                 (case readFromDisk g ps fs out key of
                    (Some e, out1) \<Rightarrow>
                      (case out1 of
                         VPtr t1 v1 \<Rightarrow>
                           (Returns (Some e, out1), ps\<lparr>cache := AList.update key v1 (cache ps)\<rparr>)
                       | _ \<Rightarrow> (Panics, ps))
                  | (None, out1) \<Rightarrow> (Returns (None, out1), ps))
             | Some it \<Rightarrow>
                 (case out of
                    VPtr t1 v1 \<Rightarrow>
                      if assignable it t1 then (Returns (None, VPtr t1 it), ps) else (Panics, ps)
                  | _ \<Rightarrow> (Panics, ps))))"

definition Get :: "gob \<Rightarrow> PersistentStorage \<Rightarrow> filesys \<Rightarrow> string \<Rightarrow> gval
    \<Rightarrow> (error \<times> gval) outcome \<times> PersistentStorage" where
  "Get g ps fs key out =
     (if ThreadSafe ps then
        (case mutex_Lock ps of
           None \<Rightarrow> (Blocks, ps)
         | Some ps1 \<Rightarrow>
             (case get g ps1 fs out key of
                (res, ps2) \<Rightarrow>
                  (case mutex_Lock ps2 of
                     None \<Rightarrow> (Blocks, ps2)
                   | Some ps3 \<Rightarrow> (res, ps3))))
      else get g ps fs out key)"

subsection \<open>Concrete collaborators for evaluating the model\<close>

text \<open>
  A codec that writes an \<^verbatim>\<open>int\<close> below 256 as one byte and reads one byte into an
  \<^verbatim>\<open>int\<close> location, a file system that refuses nothing, and a directory \<^verbatim>\<open>/data\<close> that
  holds the cache file of the key \<^verbatim>\<open>a\<close> of the namespace \<^verbatim>\<open>ns\<close>.
\<close>

definition byte_gob :: gob where
  "byte_gob =
     \<lparr>gob_Encode = (\<lambda>v. case v of
                            VInt n \<Rightarrow> ([word_of_int n], None)
                          | _ \<Rightarrow> ([], Some ''gob: type not supported'')),
      gob_Decode = (\<lambda>bs out. case (bs, out) of
                                ([b], VPtr TInt _) \<Rightarrow> (None, VPtr TInt (VInt (uint b)))
                              | _ \<Rightarrow> (Some ''gob: cannot decode'', out))\<rparr>"

definition no_fault :: "fs_op \<Rightarrow> string \<Rightarrow> string option" where
  "no_fault opn p = None"

definition empty_disk :: filesys where
  "empty_disk = \<lparr>dirs = Map.empty, fault = no_fault\<rparr>"

definition disk_a :: filesys where
  "disk_a = \<lparr>dirs = [''/data'' \<mapsto> [(''ns_a.pcache'', RegFile [42])]], fault = no_fault\<rparr>"

text \<open>
  A directory in which the files of the keys \<^verbatim>\<open>a\<close> and \<^verbatim>\<open>b\<close> cannot be opened for writing,
  while everything else is permitted.
\<close>

definition guarded_disk :: filesys where
  "guarded_disk =
     \<lparr>dirs = [''/data'' \<mapsto> []],
      fault = (\<lambda>opn p. if opn = OpWriteFile
                            \<and> (p = ''/data/ns_a.pcache'' \<or> p = ''/data/ns_b.pcache'')
                         then Some (''open '' @ p @ '': permission denied'') else None)\<rparr>"

text \<open>
  Caches with a small memory limit: one entry, on disk and in memory only, and no entry at
  all on disk.
\<close>

definition small_disk_cache :: PersistentStorage where
  "small_disk_cache = (New ''/data'' ''ns'')\<lparr>MaxMemItems := MemoryItemsCount 1\<rparr>"

definition small_mem_cache :: PersistentStorage where
  "small_mem_cache = (NewInMemory ''ns'')\<lparr>MaxMemItems := MemoryItemsCount 1\<rparr>"


subsection \<open>Runs of calls\<close>

text \<open>
  A run of \<^verbatim>\<open>Set\<close> calls, each with the draw of its eviction, its key and its value; the run
  is \<open>None\<close> as soon as one call does not return \<^verbatim>\<open>nil\<close>.
\<close>

fun Set_each :: "gob \<Rightarrow> PersistentStorage \<Rightarrow> filesys \<Rightarrow> (nat \<times> string \<times> gval) list
    \<Rightarrow> (PersistentStorage \<times> filesys) option" where
  "Set_each g ps fs [] = Some (ps, fs)"
| "Set_each g ps fs (c # cs) =
     (case Set g (fst c) ps fs (fst (snd c)) (snd (snd c)) of
        (Returns None, ps1, fs1) \<Rightarrow> Set_each g ps1 fs1 cs
      | _ \<Rightarrow> None)"

section \<open>Properties\<close>

subsection \<open>Get after a successful read from disk\<close>

lemma get_disk_hit:
  assumes "reflect_TypeOf out = Some (TPtr t)"
    and "map_of (cache ps) key = None"
    and "readFromDisk g ps fs out key = (None, out1)"
  shows "get g ps fs out key = (Returns (None, out1), ps)"
  using assms by (simp add: get_def)

text \<open>
  C1. The claim: a \<^verbatim>\<open>Get\<close> that misses the memory and reads and decodes the cache file
  returns success and leaves the key in the in-memory map. The code stores the entry under
  \<^verbatim>\<open>if err != nil\<close>, that is when the read failed: here the disk-backed cache
  \<^verbatim>\<open>New("/data", "ns")\<close> reads the file of the key \<^verbatim>\<open>a\<close>, \<^verbatim>\<open>Get\<close> returns \<^verbatim>\<open>nil\<close> with 42 in
  the location, and the in-memory map is as empty as before.
\<close>

theorem Get_disk_hit_leaves_memory_empty:
  "Get byte_gob (New ''/data'' ''ns'') disk_a ''a'' (VPtr TInt (VInt 0))
     = (Returns (None, VPtr TInt (VInt 42)), New ''/data'' ''ns'')
   \<and> map_of (cache (snd (Get byte_gob (New ''/data'' ''ns'') disk_a ''a'' (VPtr TInt (VInt 0)))))
        ''a'' = None"
proof -
  have rd: "readFromDisk byte_gob (New ''/data'' ''ns'') disk_a (VPtr TInt (VInt 0)) ''a''
              = (None, VPtr TInt (VInt 42))"
    by (simp add: readFromDisk_def New_def os_ReadFile_def disk_a_def no_fault_def
        getCachePath_def getCacheFilename_def cache_ext_def path_String_def deserialize_def
        byte_gob_def)
  have "get byte_gob (New ''/data'' ''ns'') disk_a (VPtr TInt (VInt 0)) ''a''
          = (Returns (None, VPtr TInt (VInt 42)), New ''/data'' ''ns'')"
    by (rule get_disk_hit [OF _ _ rd]) (simp_all add: New_def)
  then show ?thesis
    by (simp add: Get_def New_def)
qed

subsection \<open>The mutex\<close>

lemma Set_ThreadSafe_blocks:
  "ThreadSafe ps \<Longrightarrow> fst (Set g r ps fs key val) = Blocks"
  by (simp add: Set_def mutex_Lock_def Set_locked_def set_entry_def Let_def
      split: option.splits prod.splits outcome.splits)

lemma Get_ThreadSafe_blocks:
  "ThreadSafe ps \<Longrightarrow> fst (Get g ps fs key out) = Blocks"
  by (simp add: Get_def mutex_Lock_def get_def
      split: option.splits prod.splits outcome.splits gval.splits)

lemma SaveToDisk_ThreadSafe_blocks:
  "ThreadSafe ps \<Longrightarrow> \<not> SaveToDiskOnSet ps \<Longrightarrow> fst (SaveToDisk g r ps fs) = Blocks"
  by (simp add: SaveToDisk_def mutex_Lock_def split: prod.splits)

text \<open>
  C4. The claim: with \<^verbatim>\<open>ThreadSafe\<close> every public operation takes the lock and releases it on
  every exit path, so that consecutive operations never deadlock. \<^verbatim>\<open>Set\<close>, \<^verbatim>\<open>Get\<close> and
  \<^verbatim>\<open>SaveToDisk\<close> defer \<^verbatim>\<open>Lock\<close> where \<^verbatim>\<open>Len\<close>, \<^verbatim>\<open>Has\<close> and \<^verbatim>\<open>Keys\<close> defer \<^verbatim>\<open>Unlock\<close>: on a fresh
  thread-safe cache the very first \<^verbatim>\<open>Set\<close> stores the entry, writes the file and then waits
  for ever on the mutex it holds itself; so do \<^verbatim>\<open>Get\<close> and \<^verbatim>\<open>SaveToDisk\<close>. \<^verbatim>\<open>Delete\<close> never
  touches the mutex: it runs to its end while the lock is held.
\<close>

theorem ThreadSafe_Set_Get_SaveToDisk_block:
  "Set byte_gob 0 ((New ''/data'' ''ns'')\<lparr>ThreadSafe := True\<rparr>) empty_disk ''a'' (VInt 1)
     = (Blocks,
        (New ''/data'' ''ns'')\<lparr>ThreadSafe := True, cache := [(''a'', VInt 1)], mutex := True\<rparr>,
        empty_disk\<lparr>dirs := [''/data'' \<mapsto> [(''ns_a.pcache'', RegFile [1])]]\<rparr>)
   \<and> fst (Get byte_gob ((New ''/data'' ''ns'')\<lparr>ThreadSafe := True\<rparr>) disk_a ''a''
             (VPtr TInt (VInt 0))) = Blocks
   \<and> fst (SaveToDisk byte_gob 0
             ((New ''/data'' ''ns'')\<lparr>ThreadSafe := True, SaveToDiskOnSet := False\<rparr>) empty_disk)
       = Blocks
   \<and> fst (Delete ((New ''/data'' ''ns'')\<lparr>ThreadSafe := True, mutex := True\<rparr>) empty_disk ''a'')
       = Returns None"
proof -
  have "fst (Delete ((New ''/data'' ''ns'')\<lparr>ThreadSafe := True, mutex := True\<rparr>) empty_disk ''a'')
          = Returns None"
    by (simp add: Delete_def New_def Let_def os_RemoveAll_def empty_disk_def no_fault_def)
  moreover
  have "Set byte_gob 0 ((New ''/data'' ''ns'')\<lparr>ThreadSafe := True\<rparr>) empty_disk ''a'' (VInt 1)
     = (Blocks,
        (New ''/data'' ''ns'')\<lparr>ThreadSafe := True, cache := [(''a'', VInt 1)], mutex := True\<rparr>,
        empty_disk\<lparr>dirs := [''/data'' \<mapsto> [(''ns_a.pcache'', RegFile [1])]]\<rparr>)"
    by (simp add: Set_def Set_locked_def set_entry_def saveToDisk_def mutex_Lock_def Let_def
        serialize_def os_MkdirAll_def os_WriteFile_def getCachePath_def getCacheFilename_def
        cache_ext_def path_String_def New_def MEM_ITEMS_DEFAULT_def MEM_ITEMS_UNLIMITED_def
        byte_gob_def empty_disk_def no_fault_def)
  ultimately show ?thesis
    by (simp add: Get_ThreadSafe_blocks SaveToDisk_ThreadSafe_blocks)
qed

subsection \<open>The nil argument\<close>

lemma Set_locked_nil: "Set_locked g r ps fs key VNil = (Panics, ps, fs)"
  by (simp add: Set_locked_def)

lemma get_nil: "get g ps fs VNil key = (Panics, ps)"
  by (simp add: get_def)

text \<open>
  C10. \<^verbatim>\<open>Set(key, nil)\<close> and \<^verbatim>\<open>Get(key, nil)\<close> return no error value: the unwrapping loop of
  \<^verbatim>\<open>Set\<close> and the error path of \<^verbatim>\<open>get\<close> panic, whatever the state of the cache, and the
  public calls never return; without \<^verbatim>\<open>ThreadSafe\<close> the panic is what the caller sees.
\<close>

theorem Set_Get_nil_panic:
  "fst (Set_locked g r ps fs key VNil) = Panics
   \<and> fst (get g ps fs VNil key) = Panics
   \<and> (\<forall>res. fst (Set g r ps fs key VNil) \<noteq> Returns res)
   \<and> (\<forall>res. fst (Get g ps fs key VNil) \<noteq> Returns res)
   \<and> (\<not> ThreadSafe ps \<longrightarrow>
        Set g r ps fs key VNil = (Panics, ps, fs) \<and> Get g ps fs key VNil = (Panics, ps))"
  by (simp add: Set_locked_nil get_nil Set_def Get_def mutex_Lock_def
      split: option.splits prod.splits)

theorem Set_Get_nil_panic_witness:
  "\<not> ThreadSafe (NewInMemory ''ns'')
   \<and> Set byte_gob 0 (NewInMemory ''ns'') empty_disk ''a'' VNil
       = (Panics, NewInMemory ''ns'', empty_disk)
   \<and> Get byte_gob (NewInMemory ''ns'') empty_disk ''a'' VNil = (Panics, NewInMemory ''ns'')"
  using Set_Get_nil_panic [of byte_gob 0 "NewInMemory ''ns''" empty_disk "''a''"]
  by (simp add: NewInMemory_def)


subsection \<open>Error texts\<close>

lemma strings_Contains_sublist: "strings_Contains s sub \<longleftrightarrow> sublist sub s"
  by (induction s) (simp_all add: sublist_Cons_right)

text \<open>
  The text of \<open>errorf\<close> is the text of the code for a namespace without a \<^verbatim>\<open>%\<close> only, and
  every statement about a text is made for such a namespace.
\<close>

lemma IsPStoreError_errorf:
  "CHR ''%'' \<notin> set (name ps) \<Longrightarrow> IsPStoreError (errorf ps msg) = Returns True"
  by (simp add: IsPStoreError_def errorf_def)

lemma is_kind_errorf:
  assumes "CHR ''%'' \<notin> set (name ps)"
  shows "is_kind m (errorf ps (m @ rest)) = Returns True"
proof -
  have "sublist m ((error_prefix @ name ps @ '': '') @ m @ rest)"
    by (rule sublist_appendI)
  then show ?thesis
    by (simp add: is_kind_def IsPStoreError_errorf [OF assms])
      (simp add: errorf_def strings_Contains_sublist)
qed

subsection \<open>Has\<close>

lemma mutex_roundtrip: "\<not> mutex ps \<Longrightarrow> mutex_Unlock (ps\<lparr>mutex := True\<rparr>) = ps"
  by (simp add: mutex_Unlock_def)

lemma Has_locked_mutex [simp]: "Has_locked (ps\<lparr>mutex := b\<rparr>) fs key = Has_locked ps fs key"
  by (simp add: Has_locked_def getCacheFilename_def errorf_def
      cong: option.case_cong sum.case_cong)

lemma Has_unlocked:
  assumes "ThreadSafe ps \<longrightarrow> \<not> mutex ps"
  shows "Has ps fs key = (Returns (Has_locked ps fs key), ps)"
proof (cases "ThreadSafe ps")
  case True
  with assms have "\<not> mutex ps" by simp
  then show ?thesis using True
    by (simp add: Has_def mutex_Lock_def mutex_roundtrip)
next
  case False
  then show ?thesis by (simp add: Has_def)
qed

lemma list_ex_file:
  "list_ex (\<lambda>file. \<not> IsDir (snd file) \<and> n = fst file) files
     \<longleftrightarrow> (\<exists>b. (n, RegFile b) \<in> set files)"
proof -
  have "(\<not> IsDir nd) = (\<exists>b. nd = RegFile b)" for nd
    by (cases nd) simp_all
  then show ?thesis
    by (force simp: list_ex_iff)
qed

text \<open>
  C5. \<^verbatim>\<open>Has\<close> answers true for a key of the in-memory map; otherwise it lists the storage
  directory, fails with the read-files error when the listing fails, and answers true exactly
  when the listing holds a file (not a directory) with the cache file name of the key. In
  every case the cache, and so the in-memory map, is what it was: \<^verbatim>\<open>Has\<close> promotes nothing.
  (With \<^verbatim>\<open>ThreadSafe\<close> the mutex must be free for \<^verbatim>\<open>Has\<close> to start; it is free again at the
  end. When the listing fails \<^verbatim>\<open>Has\<close> returns false and an error for every namespace; that
  \<^verbatim>\<open>IsReadFilesFailed\<close> accepts the error is stated for a namespace without a \<^verbatim>\<open>%\<close>.)
\<close>

theorem Has_spec:
  assumes "ThreadSafe ps \<longrightarrow> \<not> mutex ps"
  shows "snd (Has ps fs key) = ps
    \<and> (map_of (cache ps) key \<noteq> None \<longrightarrow> fst (Has ps fs key) = Returns (True, None))
    \<and> (\<forall>e. map_of (cache ps) key = None \<and> os_ReadDir fs (path ps) = Inl e \<longrightarrow>
          (\<exists>err. fst (Has ps fs key) = Returns (False, Some err)
               \<and> (CHR ''%'' \<notin> set (name ps)
                    \<longrightarrow> IsReadFilesFailed (Some err) = Returns True)))
    \<and> (\<forall>files. map_of (cache ps) key = None \<and> os_ReadDir fs (path ps) = Inr files \<longrightarrow>
          fst (Has ps fs key)
            = Returns ((\<exists>b. (getCacheFilename ps key, RegFile b) \<in> set files), None))"
proof -
  note H = Has_unlocked [OF assms, of fs key]
  have 1: "snd (Has ps fs key) = ps" by (simp add: H)
  have 2: "map_of (cache ps) key \<noteq> None \<longrightarrow> fst (Has ps fs key) = Returns (True, None)"
    by (auto simp: H Has_locked_def)
  have 3: "\<forall>e. map_of (cache ps) key = None \<and> os_ReadDir fs (path ps) = Inl e \<longrightarrow>
          (\<exists>err. fst (Has ps fs key) = Returns (False, Some err)
               \<and> (CHR ''%'' \<notin> set (name ps)
                    \<longrightarrow> IsReadFilesFailed (Some err) = Returns True))"
  proof (intro allI impI)
    fix e assume a: "map_of (cache ps) key = None \<and> os_ReadDir fs (path ps) = Inl e"
    obtain err where err: "errorf ps (error_read_files_failed @ '': '' @ e) = Some err"
      by (simp add: errorf_def)
    have "CHR ''%'' \<notin> set (name ps) \<longrightarrow> IsReadFilesFailed (Some err) = Returns True"
      unfolding IsReadFilesFailed_def err [symmetric] by (simp add: is_kind_errorf)
    moreover have "fst (Has ps fs key) = Returns (False, Some err)"
      using a err by (simp add: H Has_locked_def)
    ultimately show "\<exists>err. fst (Has ps fs key) = Returns (False, Some err)
               \<and> (CHR ''%'' \<notin> set (name ps)
                    \<longrightarrow> IsReadFilesFailed (Some err) = Returns True)" by blast
  qed
  have 4: "\<forall>files. map_of (cache ps) key = None \<and> os_ReadDir fs (path ps) = Inr files \<longrightarrow>
          fst (Has ps fs key)
            = Returns ((\<exists>b. (getCacheFilename ps key, RegFile b) \<in> set files), None)"
    by (simp add: H Has_locked_def list_ex_file)
  from 1 2 3 4 show ?thesis by blast
qed

lemma os_ReadDir_data: "os_ReadDir disk_a ''/data'' = Inr [(''ns_a.pcache'', RegFile [42])]"
  by (simp add: os_ReadDir_def disk_a_def no_fault_def)

theorem Has_spec_witness:
  "\<not> ThreadSafe (New ''/data'' ''ns'')
   \<and> CHR ''%'' \<notin> set (name (New ''/data'' ''ns''))
   \<and> map_of (cache (New ''/data'' ''ns'')) ''a'' = None
   \<and> os_ReadDir disk_a (path (New ''/data'' ''ns'')) = Inr [(''ns_a.pcache'', RegFile [42])]
   \<and> Has (New ''/data'' ''ns'') disk_a ''a'' = (Returns (True, None), New ''/data'' ''ns'')
   \<and> cache (snd (Has (New ''/data'' ''ns'') disk_a ''a'')) = []
   \<and> Has (New ''/data'' ''ns'') disk_a ''b'' = (Returns (False, None), New ''/data'' ''ns'')
   \<and> map_of (cache ((New ''/data'' ''ns'')\<lparr>cache := [(''c'', VInt 1)]\<rparr>)) ''c'' = Some (VInt 1)
   \<and> Has ((New ''/data'' ''ns'')\<lparr>cache := [(''c'', VInt 1)]\<rparr>) disk_a ''c''
       = (Returns (True, None), (New ''/data'' ''ns'')\<lparr>cache := [(''c'', VInt 1)]\<rparr>)
   \<and> os_ReadDir empty_disk (path (New ''/data'' ''ns''))
       = Inl ''open /data: no such file or directory''
   \<and> Has (New ''/data'' ''ns'') empty_disk ''a''
       = (Returns (False,
            Some ''pstore: ns: failed to read files: open /data: no such file or directory''),
          New ''/data'' ''ns'')
   \<and> IsReadFilesFailed
         (Some ''pstore: ns: failed to read files: open /data: no such file or directory'')
       = Returns True"
proof -
  let ?ps = "New ''/data'' ''ns''"
  let ?pc = "(New ''/data'' ''ns'')\<lparr>cache := [(''c'', VInt 1)]\<rparr>"
  have ts: "ThreadSafe ?ps \<longrightarrow> \<not> mutex ?ps" and tc: "ThreadSafe ?pc \<longrightarrow> \<not> mutex ?pc"
    by (simp_all add: New_def)
  have rd: "os_ReadDir disk_a (path ?ps) = Inr [(''ns_a.pcache'', RegFile [42])]"
    by (simp add: New_def os_ReadDir_data)
  have re: "os_ReadDir empty_disk (path ?ps) = Inl ''open /data: no such file or directory''"
    by (simp add: New_def os_ReadDir_def empty_disk_def no_fault_def enoent_def)
  have m: "map_of (cache ?ps) k = None" for k
    by (simp add: New_def)
  have mc: "map_of (cache ?pc) ''c'' = Some (VInt 1)"
    by simp
  have fa: "getCacheFilename ?ps ''a'' = ''ns_a.pcache''"
    and fb: "getCacheFilename ?ps ''b'' = ''ns_b.pcache''"
    by (simp_all add: getCacheFilename_def New_def cache_ext_def)
  from Has_spec [OF ts, of disk_a "''a''"] m rd fa
  have a: "Has ?ps disk_a ''a'' = (Returns (True, None), ?ps)"
    by (simp add: prod_eq_iff)
  from Has_spec [OF ts, of disk_a "''b''"] m rd fb
  have b: "Has ?ps disk_a ''b'' = (Returns (False, None), ?ps)"
    by (simp add: prod_eq_iff)
  from Has_spec [OF tc, of disk_a "''c''"] mc
  have c: "Has ?pc disk_a ''c'' = (Returns (True, None), ?pc)"
    by (simp add: prod_eq_iff)
  have e: "Has ?ps empty_disk ''a''
       = (Returns (False,
            Some ''pstore: ns: failed to read files: open /data: no such file or directory''),
          ?ps)"
    by (simp add: Has_def Has_locked_def New_def os_ReadDir_def empty_disk_def no_fault_def
        enoent_def errorf_def error_prefix_def error_read_files_failed_def)
  have pc: "CHR ''%'' \<notin> set (name ?ps)"
    by (simp add: New_def)
  from Has_spec [OF ts, of empty_disk "''a''"] m re e pc
  have k: "IsReadFilesFailed
         (Some ''pstore: ns: failed to read files: open /data: no such file or directory'')
       = Returns True"
    by simp
  have c0: "cache ?ps = []" by (simp add: New_def)
  from a b c e k rd re m mc c0 pc show ?thesis by (simp add: New_def)
qed

subsection \<open>Listing the directory of an in-memory cache\<close>

lemma is_cache_file_mutex [simp]: "is_cache_file (ps\<lparr>mutex := b\<rparr>) = is_cache_file ps"
  by (rule ext) (simp add: is_cache_file_def)

lemma Len_locked_mutex [simp]: "Len_locked (ps\<lparr>mutex := b\<rparr>) fs = Len_locked ps fs"
  by (simp add: Len_locked_def is_cache_file_def errorf_def cong: sum.case_cong)

lemma Keys_locked_mutex [simp]: "Keys_locked (ps\<lparr>mutex := b\<rparr>) fs = Keys_locked ps fs"
  by (simp add: Keys_locked_def is_cache_file_def errorf_def cong: sum.case_cong)

lemma Len_unlocked:
  assumes "ThreadSafe ps \<longrightarrow> \<not> mutex ps"
  shows "Len ps fs = (Returns (Len_locked ps fs), ps)"
proof (cases "ThreadSafe ps")
  case True
  with assms have "\<not> mutex ps" by simp
  then show ?thesis using True
    by (simp add: Len_def mutex_Lock_def mutex_roundtrip)
next
  case False
  then show ?thesis by (simp add: Len_def)
qed

lemma Keys_unlocked:
  assumes "ThreadSafe ps \<longrightarrow> \<not> mutex ps"
  shows "Keys ps fs = (Returns (Keys_locked ps fs), ps)"
proof (cases "ThreadSafe ps")
  case True
  with assms have "\<not> mutex ps" by simp
  then show ?thesis using True
    by (simp add: Keys_def mutex_Lock_def mutex_roundtrip)
next
  case False
  then show ?thesis by (simp add: Keys_def)
qed

lemma os_ReadDir_empty_path: "os_ReadDir fs [] = Inl (enoent ''open'' [])"
  by (simp add: os_ReadDir_def)

lemma read_files_error:
  "\<exists>err. errorf ps (error_read_files_failed @ '': '' @ e) = Some err
         \<and> (CHR ''%'' \<notin> set (name ps) \<longrightarrow> IsReadFilesFailed (Some err) = Returns True)"
proof -
  obtain err where err: "errorf ps (error_read_files_failed @ '': '' @ e) = Some err"
    by (simp add: errorf_def)
  have "CHR ''%'' \<notin> set (name ps) \<longrightarrow> IsReadFilesFailed (Some err) = Returns True"
    unfolding IsReadFilesFailed_def err [symmetric] by (simp add: is_kind_errorf)
  with err show ?thesis by blast
qed

text \<open>
  C9. \<^verbatim>\<open>NewInMemory\<close> leaves the storage path empty, and \<^verbatim>\<open>Len\<close>, \<^verbatim>\<open>Keys\<close> and \<^verbatim>\<open>Has\<close> list the
  storage directory whatever the mode: on a cache with that path \<^verbatim>\<open>Len\<close> and \<^verbatim>\<open>Keys\<close> always
  return an error, the one built where the listing fails, and so does \<^verbatim>\<open>Has\<close> for a key
  that is not in the in-memory map, instead of answering false. \<^verbatim>\<open>IsReadFilesFailed\<close> accepts
  that error when the namespace holds no \<^verbatim>\<open>%\<close>.
\<close>

theorem NewInMemory_listing_fails:
  assumes "path ps = path (NewInMemory n)"
    and "ThreadSafe ps \<longrightarrow> \<not> mutex ps"
  shows "(\<exists>err. Len ps fs = (Returns (- 1, Some err), ps)
             \<and> (CHR ''%'' \<notin> set (name ps) \<longrightarrow> IsReadFilesFailed (Some err) = Returns True))
    \<and> (\<exists>err. Keys ps fs = (Returns ([], Some err), ps)
             \<and> (CHR ''%'' \<notin> set (name ps) \<longrightarrow> IsReadFilesFailed (Some err) = Returns True))
    \<and> (map_of (cache ps) key = None \<longrightarrow>
         (\<exists>err. Has ps fs key = (Returns (False, Some err), ps)
               \<and> (CHR ''%'' \<notin> set (name ps)
                    \<longrightarrow> IsReadFilesFailed (Some err) = Returns True)))"
proof -
  have p: "path ps = []"
    using assms(1) by (simp add: NewInMemory_def)
  define e where "e = errorf ps (error_read_files_failed @ '': '' @ enoent ''open'' [])"
  obtain err where err: "e = Some err"
    and k: "CHR ''%'' \<notin> set (name ps) \<longrightarrow> IsReadFilesFailed (Some err) = Returns True"
    unfolding e_def using read_files_error by blast
  have "Len_locked ps fs = (- 1, e)" and "Keys_locked ps fs = ([], e)"
    and "map_of (cache ps) key = None \<longrightarrow> Has_locked ps fs key = (False, e)"
    by (simp_all add: Len_locked_def Keys_locked_def Has_locked_def p os_ReadDir_empty_path e_def)
  then have "Len ps fs = (Returns (- 1, Some err), ps)"
    and "Keys ps fs = (Returns ([], Some err), ps)"
    and "map_of (cache ps) key = None \<longrightarrow> Has ps fs key = (Returns (False, Some err), ps)"
    by (simp_all add: Len_unlocked [OF assms(2)] Keys_unlocked [OF assms(2)]
        Has_unlocked [OF assms(2)] err)
  then show ?thesis using k by blast
qed

theorem NewInMemory_listing_fails_witness:
  "path (NewInMemory ''ns'') = path (NewInMemory ''ns'')
   \<and> \<not> ThreadSafe (NewInMemory ''ns'')
   \<and> CHR ''%'' \<notin> set (name (NewInMemory ''ns''))
   \<and> map_of (cache (NewInMemory ''ns'')) ''a'' = None
   \<and> (\<exists>err. Len (NewInMemory ''ns'') empty_disk = (Returns (- 1, Some err), NewInMemory ''ns'')
             \<and> IsReadFilesFailed (Some err) = Returns True)
   \<and> (\<exists>err. Keys (NewInMemory ''ns'') empty_disk = (Returns ([], Some err), NewInMemory ''ns'')
             \<and> IsReadFilesFailed (Some err) = Returns True)
   \<and> (\<exists>err. Has (NewInMemory ''ns'') empty_disk ''a'' = (Returns (False, Some err), NewInMemory ''ns'')
             \<and> IsReadFilesFailed (Some err) = Returns True)"
proof -
  have ts: "ThreadSafe (NewInMemory ''ns'') \<longrightarrow> \<not> mutex (NewInMemory ''ns'')"
    and nts: "\<not> ThreadSafe (NewInMemory ''ns'')"
    and pc: "CHR ''%'' \<notin> set (name (NewInMemory ''ns''))"
    and m: "map_of (cache (NewInMemory ''ns'')) ''a'' = None"
    by (simp_all add: NewInMemory_def)
  from NewInMemory_listing_fails [OF refl ts, where fs = empty_disk and key = "''a''"] nts pc m
  show ?thesis by simp
qed

subsection \<open>Delete\<close>

lemma Delete_ps: "fst (snd (Delete ps fs key)) = ps\<lparr>cache := AList.delete key (cache ps)\<rparr>"
  by (simp add: Delete_def Let_def split: prod.splits option.splits)

lemma Delete_fs:
  "\<not> inMemory ps \<Longrightarrow> snd (snd (Delete ps fs key)) = snd (os_RemoveAll fs (getCachePath ps key))"
  by (simp add: Delete_def Let_def getCachePath_def getCacheFilename_def
      split: prod.splits option.splits)

lemma os_RemoveAll_missing:
  assumes "os_ReadFile fs p = Inl (True, e)"
  shows "os_ReadFile (snd (os_RemoveAll fs p)) p = Inl (True, e)"
  using assms
  by (auto simp: os_ReadFile_def os_RemoveAll_def delete_conv'
      split: option.splits fnode.splits)

text \<open>
  C6. \<^verbatim>\<open>Delete\<close> removes the in-memory entry in every case. In in-memory-only mode it then
  returns success and leaves the files alone; in disk-backed mode it returns success whenever
  the operating system does not refuse the removal, whether the file exists or not. Deleting
  a key that is neither in memory nor on disk changes neither.
\<close>

theorem Delete_spec:
  "map_of (cache (fst (snd (Delete ps fs key)))) key = None
   \<and> (inMemory ps \<longrightarrow>
        Delete ps fs key = (Returns None, ps\<lparr>cache := AList.delete key (cache ps)\<rparr>, fs))
   \<and> (\<not> inMemory ps \<and> fault fs OpRemoveAll (path_String (getCachePath ps key)) = None \<longrightarrow>
        fst (Delete ps fs key) = Returns None)
   \<and> (map_of (cache ps) key = None \<longrightarrow> cache (fst (snd (Delete ps fs key))) = cache ps)
   \<and> (\<forall>e. \<not> inMemory ps \<and> os_ReadFile fs (getCachePath ps key) = Inl (True, e) \<longrightarrow>
          os_ReadFile (snd (snd (Delete ps fs key))) (getCachePath ps key) = Inl (True, e))"
proof -
  have 1: "map_of (cache (fst (snd (Delete ps fs key)))) key = None"
    by (simp add: Delete_ps delete_conv')
  have 2: "inMemory ps \<longrightarrow>
        Delete ps fs key = (Returns None, ps\<lparr>cache := AList.delete key (cache ps)\<rparr>, fs)"
    by (simp add: Delete_def)
  have 3: "\<not> inMemory ps \<and> fault fs OpRemoveAll (path_String (getCachePath ps key)) = None \<longrightarrow>
        fst (Delete ps fs key) = Returns None"
    by (simp add: Delete_def Let_def os_RemoveAll_def getCachePath_def getCacheFilename_def
        split: option.splits)
  have 4: "map_of (cache ps) key = None \<longrightarrow> cache (fst (snd (Delete ps fs key))) = cache ps"
    by (simp add: Delete_ps map_of_eq_None_iff)
  have 5: "\<forall>e. \<not> inMemory ps \<and> os_ReadFile fs (getCachePath ps key) = Inl (True, e) \<longrightarrow>
          os_ReadFile (snd (snd (Delete ps fs key))) (getCachePath ps key) = Inl (True, e)"
    by (simp add: Delete_fs os_RemoveAll_missing)
  from 1 2 3 4 5 show ?thesis by blast
qed

theorem Delete_spec_witness:
  "inMemory (NewInMemory ''ns'')
   \<and> Delete (NewInMemory ''ns'') empty_disk ''missing-key''
       = (Returns None, NewInMemory ''ns'', empty_disk)
   \<and> \<not> inMemory (New ''/data'' ''ns'')
   \<and> fault disk_a OpRemoveAll (path_String (getCachePath (New ''/data'' ''ns'') ''missing-key''))
       = None
   \<and> map_of (cache (New ''/data'' ''ns'')) ''missing-key'' = None
   \<and> os_ReadFile disk_a (getCachePath (New ''/data'' ''ns'') ''missing-key'')
       = Inl (True, ''open /data/ns_missing-key.pcache: no such file or directory'')
   \<and> fst (Delete (New ''/data'' ''ns'') disk_a ''missing-key'') = Returns None
   \<and> cache (fst (snd (Delete (New ''/data'' ''ns'') disk_a ''missing-key''))) = []"
proof -
  have a: "inMemory (NewInMemory ''ns'')" and a': "cache (NewInMemory ''ns'') = []"
    by (simp_all add: NewInMemory_def)
  have b: "\<not> inMemory (New ''/data'' ''ns'')" and b': "cache (New ''/data'' ''ns'') = []"
    by (simp_all add: New_def)
  have c: "fault disk_a OpRemoveAll (path_String (getCachePath (New ''/data'' ''ns'') ''missing-key''))
       = None"
    by (simp add: disk_a_def no_fault_def)
  have d: "os_ReadFile disk_a (getCachePath (New ''/data'' ''ns'') ''missing-key'')
       = Inl (True, ''open /data/ns_missing-key.pcache: no such file or directory'')"
    by (simp add: os_ReadFile_def disk_a_def no_fault_def getCachePath_def getCacheFilename_def
        New_def cache_ext_def path_String_def enoent_def)
  have e: "(NewInMemory ''ns'')\<lparr>cache := AList.delete ''missing-key'' (cache (NewInMemory ''ns''))\<rparr>
            = NewInMemory ''ns''"
    by (simp add: NewInMemory_def)
  from Delete_spec [of "NewInMemory ''ns''" empty_disk "''missing-key''"] a e
  have 1: "Delete (NewInMemory ''ns'') empty_disk ''missing-key''
       = (Returns None, NewInMemory ''ns'', empty_disk)" by simp
  from Delete_spec [of "New ''/data'' ''ns''" disk_a "''missing-key''"] b b' c
  have 2: "fst (Delete (New ''/data'' ''ns'') disk_a ''missing-key'') = Returns None"
    and 3: "cache (fst (snd (Delete (New ''/data'' ''ns'') disk_a ''missing-key''))) = []"
    by simp_all
  from a b b' c d 1 2 3 show ?thesis by simp
qed

subsection \<open>The memory limit\<close>

lemma length_update_le: "length (AList.update k v al) \<le> Suc (length al)"
  by (induction al) simp_all

lemma length_update_fresh:
  "k \<notin> fst ` set al \<Longrightarrow> length (AList.update k v al) = Suc (length al)"
  by (induction al) auto

lemma length_delete_less:
  "k \<in> fst ` set al \<Longrightarrow> length (AList.delete k al) < length al"
proof (induction al)
  case Nil
  then show ?case by simp
next
  case (Cons p al)
  show ?case
  proof (cases "fst p = k")
    case True
    then show ?thesis by (simp add: less_Suc_eq_le length_delete_le)
  next
    case False
    with Cons show ?thesis by auto
  qed
qed

lemma length_delete_distinct:
  "distinct (map fst al) \<Longrightarrow> k \<in> fst ` set al \<Longrightarrow> Suc (length (AList.delete k al)) = length al"
  by (induction al) (auto simp: rev_image_eqI)

lemma evict_one_shrinks:
  assumes "m \<noteq> []"
  shows "length (evict_one r m) < length m"
proof -
  from assms have "rotate r m \<noteq> []" by simp
  then obtain kv rest where rot: "rotate r m = kv # rest"
    by (cases "rotate r m") auto
  then have "kv \<in> set (rotate r m)" by simp
  then have "fst kv \<in> fst ` set m" by simp
  then show ?thesis
    by (simp add: evict_one_def map_range_def rot length_delete_less)
qed

lemma evict_one_distinct:
  assumes "m \<noteq> []" and "distinct (map fst m)"
  shows "Suc (length (evict_one r m)) = length m"
    and "distinct (map fst (evict_one r m))"
    and "fst ` set (evict_one r m) \<subseteq> fst ` set m"
proof -
  from assms have "rotate r m \<noteq> []" by simp
  then obtain kv rest where rot: "rotate r m = kv # rest"
    by (cases "rotate r m") auto
  then have "kv \<in> set (rotate r m)" by simp
  then have k: "fst kv \<in> fst ` set m" by simp
  have e: "evict_one r m = AList.delete (fst kv) m"
    by (simp add: evict_one_def map_range_def rot)
  show "Suc (length (evict_one r m)) = length m"
    by (simp add: e length_delete_distinct [OF assms(2) k])
  show "distinct (map fst (evict_one r m))"
    by (simp add: e distinct_delete assms(2))
  show "fst ` set (evict_one r m) \<subseteq> fst ` set m"
    by (simp add: e dom_delete_subset)
qed

text \<open>What a \<^verbatim>\<open>Set\<close> that returns \<^verbatim>\<open>nil\<close> has done to the cache.\<close>

lemma Set_success:
  assumes "Set g r ps fs key val = (Returns None, ps1, fs1)"
  obtains it where "unwrap val = Returns it"
    and "MaxMemItems ps1 = MaxMemItems ps"
    and "ThreadSafe ps1 = ThreadSafe ps" and "\<not> ThreadSafe ps"
    and "SaveToDiskOnSet ps1 = SaveToDiskOnSet ps"
    and "inMemory ps1 = inMemory ps" and "path ps1 = path ps" and "name ps1 = name ps"
    and "cache ps1 =
          (if MaxMemItems ps \<noteq> MEM_ITEMS_UNLIMITED
              \<and> int (length (AList.update key it (cache ps))) > MaxMemItems ps
           then evict_one r (AList.update key it (cache ps))
           else AList.update key it (cache ps))"
proof -
  have nts: "\<not> ThreadSafe ps"
    using assms Set_ThreadSafe_blocks [of ps g r fs key val] by auto
  with assms have L: "Set_locked g r ps fs key val = (Returns None, ps1, fs1)"
    by (simp add: Set_def)
  then obtain it where it: "unwrap val = Returns it"
    by (auto simp: Set_locked_def split: outcome.splits)
  with L have se: "set_entry g r ps fs key it = (None, ps1, fs1)"
    by (auto simp: Set_locked_def split: prod.splits)
  from se have "ps1 = (if MaxMemItems ps \<noteq> MEM_ITEMS_UNLIMITED
              \<and> int (length (AList.update key it (cache ps))) > MaxMemItems ps
           then ps\<lparr>cache := evict_one r (AList.update key it (cache ps))\<rparr>
           else ps\<lparr>cache := AList.update key it (cache ps)\<rparr>)"
    by (auto simp: set_entry_def Let_def split: prod.splits option.splits if_splits)
  then show ?thesis
    using it nts by (intro that [of it]) (auto split: if_splits)
qed

lemma Set_bound:
  assumes ok: "Set g r ps fs key val = (Returns None, ps1, fs1)"
    and fin: "0 \<le> MaxMemItems ps"
    and le: "int (length (cache ps)) \<le> MaxMemItems ps"
  shows "int (length (cache ps1)) \<le> MaxMemItems ps1"
proof -
  from ok obtain it where m: "MaxMemItems ps1 = MaxMemItems ps"
    and c: "cache ps1 =
          (if MaxMemItems ps \<noteq> MEM_ITEMS_UNLIMITED
              \<and> int (length (AList.update key it (cache ps))) > MaxMemItems ps
           then evict_one r (AList.update key it (cache ps))
           else AList.update key it (cache ps))"
    by (rule Set_success)
  let ?c1 = "AList.update key it (cache ps)"
  have l1: "length ?c1 \<le> Suc (length (cache ps))"
    by (rule length_update_le)
  show ?thesis
  proof (cases "int (length ?c1) > MaxMemItems ps")
    case True
    have "MaxMemItems ps \<noteq> MEM_ITEMS_UNLIMITED"
      using fin by (simp add: MEM_ITEMS_UNLIMITED_def)
    with True c have "cache ps1 = evict_one r ?c1" by simp
    moreover have "length (evict_one r ?c1) < length ?c1"
      by (rule evict_one_shrinks) simp
    ultimately show ?thesis using l1 le m by simp
  next
    case False
    with c have "cache ps1 = ?c1" by simp
    with False m show ?thesis by simp
  qed
qed

lemma Set_fresh:
  assumes ok: "Set g r ps fs key val = (Returns None, ps1, fs1)"
    and fin: "MaxMemItems ps = int N"
    and le: "length (cache ps) \<le> N"
    and d: "distinct (map fst (cache ps))"
    and fresh: "key \<notin> fst ` set (cache ps)"
  shows "length (cache ps1) = min N (Suc (length (cache ps)))"
    and "distinct (map fst (cache ps1))"
    and "fst ` set (cache ps1) \<subseteq> insert key (fst ` set (cache ps))"
    and "MaxMemItems ps1 = int N"
proof -
  from ok obtain it where m: "MaxMemItems ps1 = MaxMemItems ps"
    and c: "cache ps1 =
          (if MaxMemItems ps \<noteq> MEM_ITEMS_UNLIMITED
              \<and> int (length (AList.update key it (cache ps))) > MaxMemItems ps
           then evict_one r (AList.update key it (cache ps))
           else AList.update key it (cache ps))"
    by (rule Set_success)
  let ?c1 = "AList.update key it (cache ps)"
  have l1: "length ?c1 = Suc (length (cache ps))"
    using fresh by (rule length_update_fresh)
  have d1: "distinct (map fst ?c1)"
    by (simp add: distinct_update d)
  have k1: "fst ` set ?c1 = insert key (fst ` set (cache ps))"
    by (simp add: dom_update)
  have nu: "MaxMemItems ps \<noteq> MEM_ITEMS_UNLIMITED"
    using fin by (simp add: MEM_ITEMS_UNLIMITED_def)
  show "MaxMemItems ps1 = int N" using m fin by simp
  show "length (cache ps1) = min N (Suc (length (cache ps)))"
    and "distinct (map fst (cache ps1))"
    and "fst ` set (cache ps1) \<subseteq> insert key (fst ` set (cache ps))"
  proof -
    have "length (cache ps1) = min N (Suc (length (cache ps)))
      \<and> distinct (map fst (cache ps1))
      \<and> fst ` set (cache ps1) \<subseteq> insert key (fst ` set (cache ps))"
    proof (cases "int (length ?c1) > MaxMemItems ps")
      case True
      with c nu have e: "cache ps1 = evict_one r ?c1" by simp
      have ne: "?c1 \<noteq> []" by simp
      from True l1 fin le have "length (cache ps) = N" by simp
      with evict_one_distinct [OF ne d1, of r] l1 k1 e show ?thesis by auto
    next
      case False
      with c have "cache ps1 = ?c1" by simp
      with False l1 d1 k1 fin show ?thesis by auto
    qed
    then show "length (cache ps1) = min N (Suc (length (cache ps)))"
      and "distinct (map fst (cache ps1))"
      and "fst ` set (cache ps1) \<subseteq> insert key (fst ` set (cache ps))" by simp_all
  qed
qed

lemma Set_each_fresh:
  assumes "Set_each g ps fs cs = Some (ps1, fs1)"
    and "MaxMemItems ps = int N"
    and "length (cache ps) \<le> N"
    and "distinct (map fst (cache ps))"
    and "distinct (map (\<lambda>c. fst (snd c)) cs)"
    and "fst ` set (cache ps) \<inter> (\<lambda>c. fst (snd c)) ` set cs = {}"
  shows "length (cache ps1) = min N (length (cache ps) + length cs)
     \<and> distinct (map fst (cache ps1))"
  using assms
proof (induction cs arbitrary: ps fs)
  case Nil
  then show ?case by simp
next
  case (Cons c cs)
  from Cons.prems(1) obtain ps2 fs2
    where step: "Set g (fst c) ps fs (fst (snd c)) (snd (snd c)) = (Returns None, ps2, fs2)"
      and rest: "Set_each g ps2 fs2 cs = Some (ps1, fs1)"
    by (auto split: prod.splits outcome.splits option.splits)
  have fresh: "fst (snd c) \<notin> fst ` set (cache ps)"
    using Cons.prems(6) by auto
  note S = Set_fresh [OF step Cons.prems(2) Cons.prems(3) Cons.prems(4) fresh]
  have le2: "length (cache ps2) \<le> N" using S(1) by simp
  have dcs: "distinct (map (\<lambda>c. fst (snd c)) cs)" using Cons.prems(5) by simp
  have disj: "fst ` set (cache ps2) \<inter> (\<lambda>c. fst (snd c)) ` set cs = {}"
  proof -
    have "fst (snd c) \<notin> (\<lambda>c. fst (snd c)) ` set cs"
      using Cons.prems(5) by simp
    moreover have "fst ` set (cache ps) \<inter> (\<lambda>c. fst (snd c)) ` set cs = {}"
      using Cons.prems(6) by auto
    ultimately have "insert (fst (snd c)) (fst ` set (cache ps)) \<inter> (\<lambda>c. fst (snd c)) ` set cs = {}"
      by simp
    with S(3) show ?thesis
      by (meson disjoint_iff subsetD)
  qed
  from Cons.IH [OF rest S(4) le2 S(2) dcs disj]
  have "length (cache ps1) = min N (length (cache ps2) + length cs)"
    and dd: "distinct (map fst (cache ps1))" by simp_all
  with S(1) have "length (cache ps1) = min N (length (cache ps) + length (c # cs))"
    by simp
  with dd show ?case by simp
qed

lemmas Set_eval = Set_def Set_locked_def set_entry_def saveToDisk_def evict_one_def map_range_def
  Let_def serialize_def os_MkdirAll_def os_WriteFile_def getCachePath_def getCacheFilename_def
  cache_ext_def path_String_def errorf_def error_prefix_def error_save_to_disk_failed_def
  error_serialize_failed_def MEM_ITEMS_UNLIMITED_def

lemmas fixture_defs = small_disk_cache_def small_mem_cache_def New_def NewInMemory_def
  MemoryItemsCount_def MEM_ITEMS_DEFAULT_def MEM_ITEMS_UNLIMITED_def byte_gob_def
  guarded_disk_def empty_disk_def no_fault_def

text \<open>
  C2, as stated: after every successful \<^verbatim>\<open>Set\<close> on a cache with the finite limit \<open>N\<close> the map
  holds at most \<open>N\<close> entries. \<^verbatim>\<open>set\<close> returns before the eviction when the file cannot be
  written, and the eviction removes one entry only: with the limit 1, two calls whose files
  cannot be written leave two entries, and the third call, which succeeds, leaves two again.
\<close>

theorem Set_bound_counterexample:
  "Set byte_gob 0 small_disk_cache guarded_disk ''a'' (VInt 1)
     = (Returns (Some ''pstore: ns: failed to save a: open /data/ns_a.pcache: permission denied''),
        small_disk_cache\<lparr>cache := [(''a'', VInt 1)]\<rparr>, guarded_disk)
   \<and> Set byte_gob 0 (small_disk_cache\<lparr>cache := [(''a'', VInt 1)]\<rparr>) guarded_disk ''b'' (VInt 2)
     = (Returns (Some ''pstore: ns: failed to save b: open /data/ns_b.pcache: permission denied''),
        small_disk_cache\<lparr>cache := [(''a'', VInt 1), (''b'', VInt 2)]\<rparr>, guarded_disk)
   \<and> fst (Set byte_gob 0 (small_disk_cache\<lparr>cache := [(''a'', VInt 1), (''b'', VInt 2)]\<rparr>)
             guarded_disk ''c'' (VInt 3)) = Returns None
   \<and> MaxMemItems (fst (snd (Set byte_gob 0
         (small_disk_cache\<lparr>cache := [(''a'', VInt 1), (''b'', VInt 2)]\<rparr>)
         guarded_disk ''c'' (VInt 3)))) = 1
   \<and> cache (fst (snd (Set byte_gob 0
         (small_disk_cache\<lparr>cache := [(''a'', VInt 1), (''b'', VInt 2)]\<rparr>)
         guarded_disk ''c'' (VInt 3)))) = [(''b'', VInt 2), (''c'', VInt 3)]"
  by (simp add: Set_eval fixture_defs)

text \<open>
  C2, amended: on a cache whose limit is a finite \<open>N \<ge> 0\<close> and whose map holds at most \<open>N\<close>
  entries, a \<^verbatim>\<open>Set\<close> that returns \<^verbatim>\<open>nil\<close> leaves at most \<open>N\<close> entries; and from the empty map,
  \<open>N + 1\<close> calls with distinct keys that all return \<^verbatim>\<open>nil\<close> leave exactly \<open>N\<close> keys.
\<close>

theorem Set_keeps_bound:
  "(\<forall>ps1 fs1. Set g r ps fs key val = (Returns None, ps1, fs1)
        \<and> 0 \<le> MaxMemItems ps \<and> int (length (cache ps)) \<le> MaxMemItems ps
      \<longrightarrow> int (length (cache ps1)) \<le> MaxMemItems ps1)
   \<and> (\<forall>ps1 fs1. Set_each g ps fs cs = Some (ps1, fs1)
        \<and> cache ps = [] \<and> MaxMemItems ps = int N
        \<and> distinct (map (\<lambda>c. fst (snd c)) cs) \<and> length cs = Suc N
      \<longrightarrow> length (cache ps1) = N \<and> distinct (map fst (cache ps1)))"
proof (intro conjI allI impI; elim conjE)
  fix ps1 fs1
  assume "Set g r ps fs key val = (Returns None, ps1, fs1)"
    and "0 \<le> MaxMemItems ps" and "int (length (cache ps)) \<le> MaxMemItems ps"
  then show "int (length (cache ps1)) \<le> MaxMemItems ps1"
    by (rule Set_bound)
next
  fix ps1 fs1
  assume run: "Set_each g ps fs cs = Some (ps1, fs1)"
    and e: "cache ps = []" and m: "MaxMemItems ps = int N"
    and d: "distinct (map (\<lambda>c. fst (snd c)) cs)" and l: "length cs = Suc N"
  have "length (cache ps1) = min N (length (cache ps) + length cs)
     \<and> distinct (map fst (cache ps1))"
    by (rule Set_each_fresh [OF run m _ _ d]) (simp_all add: e)
  then show "length (cache ps1) = N" and "distinct (map fst (cache ps1))"
    by (simp_all add: e l)
qed

theorem Set_keeps_bound_witness:
  "Set byte_gob 0 small_mem_cache empty_disk ''a'' (VInt 1)
     = (Returns None, small_mem_cache\<lparr>cache := [(''a'', VInt 1)]\<rparr>, empty_disk)
   \<and> (0::int) \<le> MaxMemItems small_mem_cache
   \<and> int (length (cache small_mem_cache)) \<le> MaxMemItems small_mem_cache
   \<and> int (length (cache (small_mem_cache\<lparr>cache := [(''a'', VInt 1)]\<rparr>)))
        \<le> MaxMemItems (small_mem_cache\<lparr>cache := [(''a'', VInt 1)]\<rparr>)
   \<and> Set_each byte_gob small_mem_cache empty_disk [(0, ''a'', VInt 1), (0, ''b'', VInt 2)]
     = Some (small_mem_cache\<lparr>cache := [(''b'', VInt 2)]\<rparr>, empty_disk)
   \<and> cache small_mem_cache = []
   \<and> MaxMemItems small_mem_cache = int 1
   \<and> distinct (map (\<lambda>c. fst (snd c)) [(0::nat, ''a'', VInt 1), (0, ''b'', VInt 2)])
   \<and> length [(0::nat, ''a'', VInt 1), (0, ''b'', VInt 2)] = Suc 1
   \<and> length (cache (small_mem_cache\<lparr>cache := [(''b'', VInt 2)]\<rparr>)) = 1"
proof -
  have s1: "Set byte_gob 0 small_mem_cache empty_disk ''a'' (VInt 1)
     = (Returns None, small_mem_cache\<lparr>cache := [(''a'', VInt 1)]\<rparr>, empty_disk)"
    by (simp add: Set_eval fixture_defs)
  have s2: "Set byte_gob 0 (small_mem_cache\<lparr>cache := [(''a'', VInt 1)]\<rparr>) empty_disk ''b'' (VInt 2)
     = (Returns None, small_mem_cache\<lparr>cache := [(''b'', VInt 2)]\<rparr>, empty_disk)"
    by (simp add: Set_eval fixture_defs)
  have run: "Set_each byte_gob small_mem_cache empty_disk [(0, ''a'', VInt 1), (0, ''b'', VInt 2)]
     = Some (small_mem_cache\<lparr>cache := [(''b'', VInt 2)]\<rparr>, empty_disk)"
    by (simp add: s1 s2)
  have h: "(0::int) \<le> MaxMemItems small_mem_cache"
    "int (length (cache small_mem_cache)) \<le> MaxMemItems small_mem_cache"
    "cache small_mem_cache = []" "MaxMemItems small_mem_cache = int 1"
    by (simp_all add: fixture_defs)
  have d: "distinct (map (\<lambda>c. fst (snd c)) [(0::nat, ''a'', VInt 1), (0, ''b'', VInt 2)])"
    "length [(0::nat, ''a'', VInt 1), (0, ''b'', VInt 2)] = Suc 1"
    by simp_all
  from Set_keeps_bound [of byte_gob 0 small_mem_cache empty_disk "''a''" "VInt 1"
      "[(0, ''a'', VInt 1), (0, ''b'', VInt 2)]" 1] s1 run h d
  have "int (length (cache (small_mem_cache\<lparr>cache := [(''a'', VInt 1)]\<rparr>)))
        \<le> MaxMemItems (small_mem_cache\<lparr>cache := [(''a'', VInt 1)]\<rparr>)"
    and "length (cache (small_mem_cache\<lparr>cache := [(''b'', VInt 2)]\<rparr>)) = 1"
    by simp_all
  with s1 run h d show ?thesis by simp
qed

subsection \<open>Get after a failed read from disk\<close>

lemma get_miss_failure:
  assumes "map_of (cache ps) key = None"
    and "readFromDisk g ps fs (VPtr t v) key = (Some e, VPtr t1 v1)"
  shows "get g ps fs (VPtr t v) key
           = (Returns (Some e, VPtr t1 v1), ps\<lparr>cache := AList.update key v1 (cache ps)\<rparr>)"
  using assms by (simp add: get_def)

lemma get_hit:
  assumes "map_of (cache ps) key = Some it" and "assignable it t"
  shows "get g ps fs (VPtr t v) key = (Returns (None, VPtr t it), ps)"
  using assms by (simp add: get_def)

lemma get_hit_panics:
  assumes "map_of (cache ps) key = Some it" and "\<not> assignable it t"
  shows "get g ps fs (VPtr t v) key = (Panics, ps)"
  using assms by (simp add: get_def)

text \<open>
  C8, as stated: after a \<^verbatim>\<open>Get\<close> whose read from disk failed, a later \<^verbatim>\<open>Get\<close> of the same key
  succeeds against the entry the first one stored. The later \<^verbatim>\<open>Get\<close> hands the stored value
  to \<^verbatim>\<open>reflect.Value.Set\<close>, which panics unless the location accepts it: after a \<^verbatim>\<open>Get\<close> into
  a fresh \<^verbatim>\<open>interface{}\<close> variable the stored value is the nil interface and the same \<^verbatim>\<open>Get\<close>
  again panics; after a \<^verbatim>\<open>Get\<close> into a \<^verbatim>\<open>string\<close> variable a \<^verbatim>\<open>Get\<close> into an \<^verbatim>\<open>int\<close> variable
  panics; and with \<^verbatim>\<open>ThreadSafe\<close> the first \<^verbatim>\<open>Get\<close> does not return at all.
\<close>

theorem stale_entry_Get_counterexample:
  "Get byte_gob (NewInMemory ''ns'') empty_disk ''a'' (VPtr TIface VNil)
     = (Returns (Some ''pstore: ns: key not found a'', VPtr TIface VNil),
        (NewInMemory ''ns'')\<lparr>cache := [(''a'', VNil)]\<rparr>)
   \<and> Get byte_gob ((NewInMemory ''ns'')\<lparr>cache := [(''a'', VNil)]\<rparr>) empty_disk ''a''
        (VPtr TIface VNil)
     = (Panics, (NewInMemory ''ns'')\<lparr>cache := [(''a'', VNil)]\<rparr>)
   \<and> Get byte_gob (NewInMemory ''ns'') empty_disk ''a'' (VPtr TString (VString []))
     = (Returns (Some ''pstore: ns: key not found a'', VPtr TString (VString [])),
        (NewInMemory ''ns'')\<lparr>cache := [(''a'', VString [])]\<rparr>)
   \<and> Get byte_gob ((NewInMemory ''ns'')\<lparr>cache := [(''a'', VString [])]\<rparr>) empty_disk ''a''
        (VPtr TInt (VInt 0))
     = (Panics, (NewInMemory ''ns'')\<lparr>cache := [(''a'', VString [])]\<rparr>)
   \<and> fst (Get byte_gob ((NewInMemory ''ns'')\<lparr>ThreadSafe := True\<rparr>) empty_disk ''a''
             (VPtr TInt (VInt 0))) = Blocks"
  by (simp add: Get_def get_def readFromDisk_def errorf_def error_prefix_def
      error_key_not_found_def assignable_def mutex_Lock_def NewInMemory_def)

text \<open>
  C8, amended: when \<^verbatim>\<open>Get\<close> is given a non-nil pointer on a cache with \<^verbatim>\<open>ThreadSafe\<close> off, the
  key is not in the in-memory map and the read from disk fails (the cache is in-memory-only,
  the file does not exist, it cannot be read, or it cannot be decoded), \<^verbatim>\<open>Get\<close> returns that
  error and has stored the key with the value the location then holds. From then on \<^verbatim>\<open>Has\<close>
  answers true for the key from memory; a later \<^verbatim>\<open>Get\<close> of the key returns the stored value
  with no error when the location it is given accepts that value, and panics when it does
  not.
\<close>

theorem Get_failure_stores_stale_entry:
  assumes nts: "\<not> ThreadSafe ps"
    and miss: "map_of (cache ps) key = None"
    and fail: "readFromDisk g ps fs (VPtr t v) key = (Some e, VPtr t v1)"
  shows "Get g ps fs key (VPtr t v)
           = (Returns (Some e, VPtr t v1), ps\<lparr>cache := AList.update key v1 (cache ps)\<rparr>)
    \<and> map_of (cache (ps\<lparr>cache := AList.update key v1 (cache ps)\<rparr>)) key = Some v1
    \<and> Has (ps\<lparr>cache := AList.update key v1 (cache ps)\<rparr>) fs2 key
         = (Returns (True, None), ps\<lparr>cache := AList.update key v1 (cache ps)\<rparr>)
    \<and> (assignable v1 t2 \<longrightarrow>
         Get g (ps\<lparr>cache := AList.update key v1 (cache ps)\<rparr>) fs2 key (VPtr t2 v2)
           = (Returns (None, VPtr t2 v1), ps\<lparr>cache := AList.update key v1 (cache ps)\<rparr>))
    \<and> (\<not> assignable v1 t2 \<longrightarrow>
         Get g (ps\<lparr>cache := AList.update key v1 (cache ps)\<rparr>) fs2 key (VPtr t2 v2)
           = (Panics, ps\<lparr>cache := AList.update key v1 (cache ps)\<rparr>))"
proof -
  let ?ps1 = "ps\<lparr>cache := AList.update key v1 (cache ps)\<rparr>"
  have G: "Get g ps fs key (VPtr t v) = (Returns (Some e, VPtr t v1), ?ps1)"
    using nts by (simp add: Get_def get_miss_failure [OF miss fail])
  have m1: "map_of (cache ?ps1) key = Some v1"
    by (simp add: update_conv')
  have nts1: "\<not> ThreadSafe ?ps1" using nts by simp
  have H: "Has ?ps1 fs2 key = (Returns (True, None), ?ps1)"
    using nts1 m1 by (simp add: Has_def Has_locked_def del: PersistentStorage.simps)
  have G2: "assignable v1 t2 \<longrightarrow> Get g ?ps1 fs2 key (VPtr t2 v2) = (Returns (None, VPtr t2 v1), ?ps1)"
    using nts1 get_hit [OF m1, of t2 g fs2 v2] by (simp add: Get_def)
  have G3: "\<not> assignable v1 t2 \<longrightarrow> Get g ?ps1 fs2 key (VPtr t2 v2) = (Panics, ?ps1)"
    using nts1 get_hit_panics [OF m1, of t2 g fs2 v2] by (simp add: Get_def)
  from G m1 H G2 G3 show ?thesis by blast
qed

theorem Get_failure_stores_stale_entry_witness:
  "\<not> ThreadSafe (NewInMemory ''ns'')
   \<and> map_of (cache (NewInMemory ''ns'')) ''a'' = None
   \<and> readFromDisk byte_gob (NewInMemory ''ns'') empty_disk (VPtr TInt (VInt 0)) ''a''
       = (Some ''pstore: ns: key not found a'', VPtr TInt (VInt 0))
   \<and> assignable (VInt 0) TInt
   \<and> \<not> assignable (VInt 0) TString
   \<and> Get byte_gob (NewInMemory ''ns'') empty_disk ''a'' (VPtr TInt (VInt 0))
       = (Returns (Some ''pstore: ns: key not found a'', VPtr TInt (VInt 0)),
          (NewInMemory ''ns'')\<lparr>cache := [(''a'', VInt 0)]\<rparr>)
   \<and> Has ((NewInMemory ''ns'')\<lparr>cache := [(''a'', VInt 0)]\<rparr>) empty_disk ''a''
       = (Returns (True, None), (NewInMemory ''ns'')\<lparr>cache := [(''a'', VInt 0)]\<rparr>)
   \<and> Get byte_gob ((NewInMemory ''ns'')\<lparr>cache := [(''a'', VInt 0)]\<rparr>) empty_disk ''a''
         (VPtr TInt (VInt 7))
       = (Returns (None, VPtr TInt (VInt 0)), (NewInMemory ''ns'')\<lparr>cache := [(''a'', VInt 0)]\<rparr>)
   \<and> Get byte_gob ((NewInMemory ''ns'')\<lparr>cache := [(''a'', VInt 0)]\<rparr>) empty_disk ''a''
         (VPtr TString (VString ''x''))
       = (Panics, (NewInMemory ''ns'')\<lparr>cache := [(''a'', VInt 0)]\<rparr>)"
proof -
  have nts: "\<not> ThreadSafe (NewInMemory ''ns'')"
    and miss: "map_of (cache (NewInMemory ''ns'')) ''a'' = None"
    and c: "cache (NewInMemory ''ns'') = []"
    by (simp_all add: NewInMemory_def)
  have fail: "readFromDisk byte_gob (NewInMemory ''ns'') empty_disk (VPtr TInt (VInt 0)) ''a''
       = (Some ''pstore: ns: key not found a'', VPtr TInt (VInt 0))"
    by (simp add: readFromDisk_def NewInMemory_def errorf_def error_prefix_def
        error_key_not_found_def)
  have asg: "assignable (VInt 0) TInt" and nasg: "\<not> assignable (VInt 0) TString"
    by (simp_all add: assignable_def)
  from Get_failure_stores_stale_entry [OF nts miss fail, of empty_disk TInt "VInt 7"] asg c
  have 1: "Get byte_gob (NewInMemory ''ns'') empty_disk ''a'' (VPtr TInt (VInt 0))
       = (Returns (Some ''pstore: ns: key not found a'', VPtr TInt (VInt 0)),
          (NewInMemory ''ns'')\<lparr>cache := [(''a'', VInt 0)]\<rparr>)"
    and 2: "Has ((NewInMemory ''ns'')\<lparr>cache := [(''a'', VInt 0)]\<rparr>) empty_disk ''a''
       = (Returns (True, None), (NewInMemory ''ns'')\<lparr>cache := [(''a'', VInt 0)]\<rparr>)"
    and 3: "Get byte_gob ((NewInMemory ''ns'')\<lparr>cache := [(''a'', VInt 0)]\<rparr>) empty_disk ''a''
         (VPtr TInt (VInt 7))
       = (Returns (None, VPtr TInt (VInt 0)), (NewInMemory ''ns'')\<lparr>cache := [(''a'', VInt 0)]\<rparr>)"
    by simp_all
  from Get_failure_stores_stale_entry [OF nts miss fail, of empty_disk TString "VString ''x''"]
    nasg c
  have 4: "Get byte_gob ((NewInMemory ''ns'')\<lparr>cache := [(''a'', VInt 0)]\<rparr>) empty_disk ''a''
         (VPtr TString (VString ''x''))
       = (Panics, (NewInMemory ''ns'')\<lparr>cache := [(''a'', VInt 0)]\<rparr>)"
    by simp
  from nts miss fail asg nasg 1 2 3 4 show ?thesis by simp
qed

subsection \<open>Set followed by Get\<close>

lemmas Get_eval = Get_def get_def readFromDisk_def os_ReadFile_def deserialize_def
  getCachePath_def getCacheFilename_def cache_ext_def path_String_def errorf_def error_prefix_def
  error_key_not_found_def assignable_def


lemma os_MkdirAll_fault: "fault (snd (os_MkdirAll fs d)) = fault fs"
  by (simp add: os_MkdirAll_def split: option.splits)








subsection \<open>The order of a full range\<close>

lemma pick_order_subset: "set (pick_order n r m) \<subseteq> set m"
proof (induction n arbitrary: r m)
  case 0
  then show ?case by simp
next
  case (Suc n)
  show ?case
  proof (cases "m = []")
    case True
    then show ?thesis by simp
  next
    case False
    let ?i = "r mod length m"
    have i: "?i < length m" using False by simp
    have "set (take ?i m @ drop (Suc ?i) m) \<subseteq> set m"
      by (auto dest: in_set_takeD in_set_dropD)
    with Suc [of "r div length m" "take ?i m @ drop (Suc ?i) m"] i False
    show ?thesis by auto
  qed
qed

lemma map_range_all_subset: "set (map_range_all r m) \<subseteq> set m"
  by (simp add: map_range_all_def pick_order_subset)

lemma map_range_all_first:
  "m \<noteq> [] \<Longrightarrow> hd (map_range_all r m) = hd (map_range r m)"
  by (cases m) (simp_all add: map_range_all_def map_range_def hd_rotate_conv_nth)

lemma pick_order_every:
  assumes "distinct m" and "distinct ys" and "set ys = set m"
  shows "\<exists>r. pick_order (length m) r m = ys"
  using assms
proof (induction ys arbitrary: m)
  case Nil
  then show ?case by simp
next
  case (Cons y ys)
  from Cons.prems have "y \<in> set m" by auto
  then obtain i where i: "i < length m" "m ! i = y"
    by (auto simp: in_set_conv_nth)
  let ?m = "take i m @ drop (Suc i) m"
  have m: "m = take i m @ y # drop (Suc i) m"
    using id_take_nth_drop [OF i(1)] i(2) by simp
  have d: "distinct ?m" and s: "set ?m = set m - {y}"
  proof -
    from Cons.prems(1) m have "distinct (take i m @ y # drop (Suc i) m)" by simp
    then show "distinct ?m" by simp
    from Cons.prems(1) m have "y \<notin> set ?m"
      by (metis distinct.simps(2) distinct_append UnE disjoint_insert(1) list.simps(15) set_append)
    moreover have "set m = insert y (set ?m)"
      by (subst m) auto
    ultimately show "set ?m = set m - {y}" by auto
  qed
  from Cons.prems have "set ys = set m - {y}" by auto
  with s have "set ys = set ?m" by simp
  from Cons.IH [OF d _ this] Cons.prems(2) obtain r where r: "pick_order (length ?m) r ?m = ys"
    by auto
  have l: "length m = Suc (length ?m)"
    using i by (simp add: min_def)
  have pos: "0 < length m" using i by (cases m) simp_all
  let ?r = "i + length m * r"
  have md: "?r mod length m = i" "?r div length m = r"
    using i pos by simp_all
  have ne: "m \<noteq> []" using pos by auto
  have "pick_order (length m) ?r m = pick_order (Suc (length ?m)) ?r m"
    using l by (rule arg_cong [where f = "\<lambda>n. pick_order n ?r m"])
  also have "\<dots> = (m ! (?r mod length m))
      # pick_order (length ?m) (?r div length m)
          (take (?r mod length m) m @ drop (Suc (?r mod length m)) m)"
    using ne by (simp only: pick_order.simps if_False)
  also have "\<dots> = y # pick_order (length ?m) r ?m"
    by (simp only: md i(2))
  also have "\<dots> = y # ys"
    by (simp only: r)
  finally show ?case by blast
qed

lemma map_range_all_every:
  assumes "distinct m" and "distinct ys" and "set ys = set m"
  shows "\<exists>r. map_range_all r m = ys"
  using pick_order_every [OF assms] by (simp add: map_range_all_def)

subsection \<open>Markers in error texts\<close>

lemma prefix_sep:
  assumes "c \<notin> set m"
  shows "prefix m (xs @ c # ys) \<longleftrightarrow> prefix m xs"
proof
  assume "prefix m (xs @ c # ys)"
  then consider "prefix m xs" | us where "m = xs @ us" "prefix us (c # ys)"
    by (auto simp: prefix_append)
  then show "prefix m xs"
  proof cases
    case 1
    then show ?thesis .
  next
    case 2
    with assms have "us = []" by (cases us) auto
    with 2 show ?thesis by simp
  qed
next
  assume "prefix m xs"
  then show "prefix m (xs @ c # ys)" by (rule prefix_prefix)
qed

lemma sublist_sep:
  assumes "c \<notin> set m"
  shows "sublist m (xs @ c # ys) \<longleftrightarrow> sublist m xs \<or> sublist m ys"
proof (induction xs)
  case Nil
  have "prefix m (c # ys) \<longleftrightarrow> m = []"
    using prefix_sep [OF assms, of "[]" ys] by simp
  then show ?case by (auto simp: sublist_Cons_right)
next
  case (Cons x xs)
  have "prefix m (x # xs @ c # ys) \<longleftrightarrow> prefix m (x # xs)"
    using prefix_sep [OF assms, of "x # xs" ys] by simp
  with Cons show ?case by (auto simp: sublist_Cons_right)
qed

lemma sublist_skip:
  assumes "m \<noteq> []" and "hd m \<noteq> c"
  shows "sublist m (c # xs) \<longleftrightarrow> sublist m xs"
  using assms by (cases m) (auto simp: sublist_Cons_right)

lemmas marker_defs = error_read_files_failed_def error_delete_failed_def
  error_save_to_disk_failed_def error_serialize_failed_def error_expected_pointer_def
  error_key_not_found_def error_read_from_disk_failed_def error_deserialize_failed_def

lemma marker_shape:
  "marker k \<noteq> []" "CHR '':'' \<notin> set (marker k)" "hd (marker k) \<noteq> CHR '' ''"
  "\<not> sublist (marker k) ''pstore''"
  by (cases k; simp add: marker_defs sublist_Cons_right)+

lemma marker_in_marker: "sublist (marker k) (marker K) \<longleftrightarrow> k = K"
  by (cases k; cases K; simp add: marker_defs sublist_Cons_right)

lemma marker_then_key:
  "sublist (marker k) (marker K @ CHR '' '' # key) \<longleftrightarrow> k = K \<or> sublist (marker k) key"
  by (cases k; cases K; simp add: marker_defs sublist_Cons_right)

lemma marker_then_type:
  "sublist (marker k) (error_expected_pointer @ '' but got type '' @ t)
     \<longleftrightarrow> k = ExpectedPointer \<or> sublist (marker k) t"
  by (cases k; simp add: marker_defs sublist_Cons_right)

lemma sublist_message:
  assumes "m \<noteq> []" and "CHR '':'' \<notin> set m" and "hd m \<noteq> CHR '' ''"
    and "\<not> sublist m ''pstore''"
  shows "sublist m (error_prefix @ ns @ '': '' @ body) \<longleftrightarrow> sublist m ns \<or> sublist m body"
proof -
  have "error_prefix @ ns @ '': '' @ body
          = ''pstore'' @ CHR '':'' # ((CHR '' '' # ns) @ CHR '':'' # (CHR '' '' # body))"
    by (simp add: error_prefix_def)
  then have "sublist m (error_prefix @ ns @ '': '' @ body)
      \<longleftrightarrow> sublist m ''pstore'' \<or> sublist m (CHR '' '' # ns) \<or> sublist m (CHR '' '' # body)"
    by (simp only: sublist_sep [OF assms(2)])
  then show ?thesis
    using assms(4) by (simp only: sublist_skip [OF assms(1,3)]) simp
qed

lemma Is_marker: "Is k err = is_kind (marker k) err"
  by (cases k) (simp_all add: IsReadFilesFailed_def IsDeleteFailed_def IsSaveToDiskFailed_def
      IsSerializeFailed_def IsExpectedPointer_def IsKeyNotFound_def IsReadFromDiskFailed_def
      IsDeserializeFailed_def)

lemma Is_errorf:
  assumes "CHR ''%'' \<notin> set (name ps)"
  shows "Is k (errorf ps body) = Returns (sublist (marker k) (name ps) \<or> sublist (marker k) body)"
proof -
  have "is_kind (marker k) (errorf ps body)
          = Returns (sublist (marker k) (error_prefix @ name ps @ '': '' @ body))"
    by (simp add: is_kind_def IsPStoreError_errorf [OF assms])
      (simp add: errorf_def strings_Contains_sublist)
  then show ?thesis
    by (simp only: Is_marker sublist_message [OF marker_shape])
qed

lemma told_apartI:
  assumes "CHR ''%'' \<notin> set (name ps)"
    and "\<And>k. sublist (marker k) body
            \<longleftrightarrow> k = K \<or> sublist (marker k) key \<or> sublist (marker k) cause"
  shows "told_apart K (name ps) key cause (errorf ps body)"
  unfolding told_apart_def
proof (intro conjI allI)
  show "IsPStoreError (errorf ps body) = Returns True"
    by (rule IsPStoreError_errorf [OF assms(1)])
  fix k
  show "Is k (errorf ps body)
          = Returns (k = K \<or> sublist (marker k) (name ps) \<or> sublist (marker k) key
                     \<or> sublist (marker k) cause)"
    unfolding Is_errorf [OF assms(1)] assms(2) by auto
qed

lemma told_apart_listing:
  assumes "CHR ''%'' \<notin> set (name ps)"
  shows "told_apart ReadFilesFailed (name ps) [] cause
           (errorf ps (error_read_files_failed @ '': '' @ cause))"
proof (rule told_apartI [OF assms])
  fix k
  have "sublist (marker k) (marker ReadFilesFailed @ CHR '':'' # (CHR '' '' # cause))
          \<longleftrightarrow> sublist (marker k) (marker ReadFilesFailed) \<or> sublist (marker k) cause"
    by (simp only: sublist_sep [OF marker_shape(2)] sublist_skip [OF marker_shape(1,3)])
  then have "sublist (marker k) (marker ReadFilesFailed @ CHR '':'' # (CHR '' '' # cause))
          \<longleftrightarrow> k = ReadFilesFailed \<or> sublist (marker k) cause"
    by (simp only: marker_in_marker)
  then show "sublist (marker k) (error_read_files_failed @ '': '' @ cause)
          \<longleftrightarrow> k = ReadFilesFailed \<or> sublist (marker k) [] \<or> sublist (marker k) cause"
    by (simp add: marker_shape)
qed

lemma told_apart_key:
  assumes "CHR ''%'' \<notin> set (name ps)"
  shows "told_apart K (name ps) key [] (errorf ps (marker K @ '' '' @ key))"
proof (rule told_apartI [OF assms])
  fix k
  show "sublist (marker k) (marker K @ '' '' @ key)
          \<longleftrightarrow> k = K \<or> sublist (marker k) key \<or> sublist (marker k) []"
    using marker_then_key [of k K key] by (simp add: marker_shape)
qed

lemma told_apart_key_cause:
  assumes "CHR ''%'' \<notin> set (name ps)"
  shows "told_apart K (name ps) key cause (errorf ps (marker K @ '' '' @ key @ '': '' @ cause))"
proof (rule told_apartI [OF assms])
  fix k
  have "sublist (marker k) ((marker K @ CHR '' '' # key) @ CHR '':'' # (CHR '' '' # cause))
          \<longleftrightarrow> sublist (marker k) (marker K @ CHR '' '' # key) \<or> sublist (marker k) cause"
    by (simp only: sublist_sep [OF marker_shape(2)] sublist_skip [OF marker_shape(1,3)])
  then show "sublist (marker k) (marker K @ '' '' @ key @ '': '' @ cause)
          \<longleftrightarrow> k = K \<or> sublist (marker k) key \<or> sublist (marker k) cause"
    by (simp add: marker_then_key)
qed

lemma told_apart_type:
  assumes "CHR ''%'' \<notin> set (name ps)"
  shows "told_apart ExpectedPointer (name ps) [] t
           (errorf ps (error_expected_pointer @ '' but got type '' @ t))"
proof (rule told_apartI [OF assms])
  fix k
  show "sublist (marker k) (error_expected_pointer @ '' but got type '' @ t)
          \<longleftrightarrow> k = ExpectedPointer \<or> sublist (marker k) [] \<or> sublist (marker k) t"
    using marker_then_type [of k t] by (simp add: marker_shape)
qed

subsection \<open>The kinds of the returned errors\<close>

lemma Len_error:
  assumes "Len ps fs = (Returns (n, Some e), ps1)" and "CHR ''%'' \<notin> set (name ps)"
  shows "\<exists>c. os_ReadDir fs (path ps) = Inl c \<and> told_apart ReadFilesFailed (name ps) [] c (Some e)"
proof -
  from assms(1) have "Len_locked ps fs = (n, Some e) \<or> Len_locked (ps\<lparr>mutex := True\<rparr>) fs = (n, Some e)"
    by (auto simp: Len_def mutex_Lock_def split: if_splits)
  then have "Len_locked ps fs = (n, Some e)" by simp
  then obtain c where c: "os_ReadDir fs (path ps) = Inl c"
    and "errorf ps (error_read_files_failed @ '': '' @ c) = Some e"
    by (auto simp: Len_locked_def split: sum.splits)
  with told_apart_listing [OF assms(2), of c] show ?thesis by auto
qed

lemma Keys_error:
  assumes "Keys ps fs = (Returns (ks, Some e), ps1)" and "CHR ''%'' \<notin> set (name ps)"
  shows "\<exists>c. os_ReadDir fs (path ps) = Inl c \<and> told_apart ReadFilesFailed (name ps) [] c (Some e)"
proof -
  from assms(1) have "Keys_locked ps fs = (ks, Some e) \<or> Keys_locked (ps\<lparr>mutex := True\<rparr>) fs = (ks, Some e)"
    by (auto simp: Keys_def mutex_Lock_def split: if_splits)
  then have "Keys_locked ps fs = (ks, Some e)" by simp
  then obtain c where c: "os_ReadDir fs (path ps) = Inl c"
    and "errorf ps (error_read_files_failed @ '': '' @ c) = Some e"
    by (auto simp: Keys_locked_def split: sum.splits)
  with told_apart_listing [OF assms(2), of c] show ?thesis by auto
qed

lemma Has_error:
  assumes "Has ps fs key = (Returns (b, Some e), ps1)" and "CHR ''%'' \<notin> set (name ps)"
  shows "\<exists>c. os_ReadDir fs (path ps) = Inl c \<and> told_apart ReadFilesFailed (name ps) [] c (Some e)"
proof -
  from assms(1) have "Has_locked ps fs key = (b, Some e) \<or> Has_locked (ps\<lparr>mutex := True\<rparr>) fs key = (b, Some e)"
    by (auto simp: Has_def mutex_Lock_def split: if_splits)
  then have "Has_locked ps fs key = (b, Some e)" by simp
  then obtain c where c: "os_ReadDir fs (path ps) = Inl c"
    and "errorf ps (error_read_files_failed @ '': '' @ c) = Some e"
    by (auto simp: Has_locked_def split: sum.splits option.splits)
  with told_apart_listing [OF assms(2), of c] show ?thesis by auto
qed

lemma errorf_cache [simp]: "errorf (ps\<lparr>cache := c\<rparr>) body = errorf ps body"
  by (simp add: errorf_def)

lemma Delete_error:
  assumes "Delete ps fs key = (Returns (Some e), ps1, fs1)" and "CHR ''%'' \<notin> set (name ps)"
  shows "\<exists>c. fst (os_RemoveAll fs (getCachePath ps key)) = Some c
           \<and> told_apart DeleteFailed (name ps) key c (Some e)"
proof -
  have p: "getCachePath (ps\<lparr>cache := AList.delete key (cache ps)\<rparr>) key = getCachePath ps key"
    by (simp add: getCachePath_def getCacheFilename_def)
  from assms(1) obtain c where c: "fst (os_RemoveAll fs (getCachePath ps key)) = Some c"
    and "errorf ps (marker DeleteFailed @ '' '' @ key @ '': '' @ c) = Some e"
    by (auto simp: Delete_def Let_def p split: if_splits prod.splits option.splits)
  with told_apart_key_cause [OF assms(2), of DeleteFailed key c] show ?thesis by auto
qed

lemma saveToDisk_error:
  assumes "saveToDisk g ps fs key v = (Some e, fs1)" and "CHR ''%'' \<notin> set (name ps)"
  shows "\<exists>K c. save_failure g ps fs key v K c \<and> told_apart K (name ps) key c (Some e)"
proof -
  from assms(1) have nm: "\<not> inMemory ps"
    by (auto simp: saveToDisk_def split: if_splits)
  obtain e0 fs0 where mk: "os_MkdirAll fs (path ps) = (e0, fs0)"
    by (cases "os_MkdirAll fs (path ps)")
  obtain bs e1 where ser: "serialize g v = (bs, e1)"
    by (cases "serialize g v")
  obtain e2 fs2 where wr: "os_WriteFile fs0 (getCachePath ps key) bs = (e2, fs2)"
    by (cases "os_WriteFile fs0 (getCachePath ps key) bs")
  show ?thesis
  proof (cases e0)
    case (Some c)
    with assms(1) nm mk
    have "errorf ps (marker SaveToDiskFailed @ '' '' @ key @ '': '' @ c) = Some e"
      by (simp add: saveToDisk_def)
    moreover have "save_failure g ps fs key v SaveToDiskFailed c"
      using mk Some by (simp add: save_failure_def)
    ultimately show ?thesis
      using told_apart_key_cause [OF assms(2), of SaveToDiskFailed key c] by auto
  next
    case None
    note e0 = this
    show ?thesis
    proof (cases e1)
      case (Some c)
      with assms(1) nm mk ser e0
      have "errorf ps (marker SerializeFailed @ '' '' @ key @ '': '' @ c) = Some e"
        by (simp add: saveToDisk_def)
      moreover have "save_failure g ps fs key v SerializeFailed c"
        using mk ser e0 Some by (simp add: save_failure_def)
      ultimately show ?thesis
        using told_apart_key_cause [OF assms(2), of SerializeFailed key c] by auto
    next
      case None
      with assms(1) nm mk ser wr e0 obtain c where c: "e2 = Some c"
        and "errorf ps (marker SaveToDiskFailed @ '' '' @ key @ '': '' @ c) = Some e"
        by (cases e2) (auto simp: saveToDisk_def)
      moreover have "save_failure g ps fs key v SaveToDiskFailed c"
        using mk ser wr e0 None c by (simp add: save_failure_def)
      ultimately show ?thesis
        using told_apart_key_cause [OF assms(2), of SaveToDiskFailed key c] by auto
    qed
  qed
qed

lemma saveToDisk_cache [simp]:
  "saveToDisk g (ps\<lparr>cache := c\<rparr>) fs key v = saveToDisk g ps fs key v"
  by (simp add: saveToDisk_def getCachePath_def getCacheFilename_def errorf_def
      split: prod.splits option.splits)

lemma Set_error:
  assumes "Set g r ps fs key val = (Returns (Some e), ps1, fs1)"
    and "CHR ''%'' \<notin> set (name ps)"
  shows "\<exists>it K c. unwrap val = Returns it \<and> save_failure g ps fs key it K c
           \<and> told_apart K (name ps) key c (Some e)"
proof -
  have nts: "\<not> ThreadSafe ps"
    using assms(1) Set_ThreadSafe_blocks [of ps g r fs key val] by auto
  with assms(1) have L: "Set_locked g r ps fs key val = (Returns (Some e), ps1, fs1)"
    by (simp add: Set_def)
  then obtain it where it: "unwrap val = Returns it"
    by (auto simp: Set_locked_def split: outcome.splits)
  with L have "set_entry g r ps fs key it = (Some e, ps1, fs1)"
    by (auto simp: Set_locked_def split: prod.splits)
  then have "saveToDisk g ps fs key it = (Some e, fs1)"
    by (auto simp: set_entry_def Let_def split: prod.splits option.splits if_splits)
  from saveToDisk_error [OF this assms(2)] it show ?thesis by blast
qed

lemma os_WriteFile_fault: "fault (snd (os_WriteFile fs p bs)) = fault fs"
  by (simp add: os_WriteFile_def split: option.splits fnode.splits)

lemma saveToDisk_fault: "fault (snd (saveToDisk g ps fs key v)) = fault fs"
proof -
  obtain e0 fs0 where mk: "os_MkdirAll fs (path ps) = (e0, fs0)"
    by (cases "os_MkdirAll fs (path ps)")
  obtain bs e1 where ser: "serialize g v = (bs, e1)"
    by (cases "serialize g v")
  obtain e2 fs2 where wr: "os_WriteFile fs0 (getCachePath ps key) bs = (e2, fs2)"
    by (cases "os_WriteFile fs0 (getCachePath ps key) bs")
  have f0: "fault fs0 = fault fs"
    using os_MkdirAll_fault [of fs "path ps"] mk by simp
  have f2: "fault fs2 = fault fs"
    using os_WriteFile_fault [of fs0 "getCachePath ps key" bs] wr f0 by simp
  show ?thesis
    by (cases e0; cases e1; cases e2) (simp_all add: saveToDisk_def mk ser wr f0 f2)
qed

lemma saveEntries_error:
  assumes "saveEntries g ps fs kvs = (Some e, fs1)" and "CHR ''%'' \<notin> set (name ps)"
  shows "\<exists>kv fs0 K c. kv \<in> set kvs \<and> fault fs0 = fault fs
           \<and> save_failure g ps fs0 (fst kv) (snd kv) K c
           \<and> told_apart K (name ps) (fst kv) c (Some e)"
  using assms(1)
proof (induction kvs arbitrary: fs)
  case Nil
  then show ?case by simp
next
  case (Cons kv kvs)
  obtain e0 fs0 where s: "saveToDisk g ps fs (fst kv) (snd kv) = (e0, fs0)"
    by (cases "saveToDisk g ps fs (fst kv) (snd kv)")
  show ?case
  proof (cases e0)
    case None
    with Cons.prems s have "saveEntries g ps fs0 kvs = (Some e, fs1)" by simp
    from Cons.IH [OF this] obtain kv' fs' K c where "kv' \<in> set kvs" "fault fs' = fault fs0"
      "save_failure g ps fs' (fst kv') (snd kv') K c"
      "told_apart K (name ps) (fst kv') c (Some e)" by blast
    moreover have "fault fs0 = fault fs"
      using saveToDisk_fault [of g ps fs "fst kv" "snd kv"] s by simp
    ultimately show ?thesis
      by (intro exI [of _ kv'] exI [of _ fs'] exI [of _ K] exI [of _ c]) simp
  next
    case (Some m)
    with Cons.prems s have "saveToDisk g ps fs (fst kv) (snd kv) = (Some e, fs0)" by simp
    from saveToDisk_error [OF this assms(2)] obtain K c
      where "save_failure g ps fs (fst kv) (snd kv) K c"
        "told_apart K (name ps) (fst kv) c (Some e)" by blast
    then show ?thesis
      by (intro exI [of _ kv] exI [of _ fs] exI [of _ K] exI [of _ c]) simp
  qed
qed

lemma SaveToDisk_error:
  assumes "SaveToDisk g r ps fs = (Returns (Some e), ps1, fs1)"
    and "CHR ''%'' \<notin> set (name ps)"
  shows "\<exists>kv fs0 K c. kv \<in> set (cache ps) \<and> fault fs0 = fault fs
           \<and> save_failure g ps fs0 (fst kv) (snd kv) K c
           \<and> told_apart K (name ps) (fst kv) c (Some e)"
proof -
  have nts: "\<not> (\<not> SaveToDiskOnSet ps \<and> ThreadSafe ps)"
    using assms(1) SaveToDisk_ThreadSafe_blocks [of ps g r fs] by auto
  with assms(1) have "saveEntries g ps fs (map_range_all r (cache ps)) = (Some e, fs1)"
    by (auto simp: SaveToDisk_def split: if_splits prod.splits)
  from saveEntries_error [OF this assms(2)] map_range_all_subset [of r "cache ps"]
  show ?thesis by blast
qed

lemma readFromDisk_error:
  assumes "readFromDisk g ps fs out key = (Some e, out1)" and "CHR ''%'' \<notin> set (name ps)"
  shows "\<exists>K c. read_failure g ps fs out key K c \<and> told_apart K (name ps) key c (Some e)"
proof (cases "inMemory ps")
  case True
  with assms(1) have "errorf ps (marker KeyNotFound @ '' '' @ key) = Some e"
    by (simp add: readFromDisk_def)
  moreover have "read_failure g ps fs out key KeyNotFound []"
    using True by (simp add: read_failure_def)
  ultimately show ?thesis
    using told_apart_key [OF assms(2), of KeyNotFound key] by auto
next
  case False
  note nm = this
  show ?thesis
  proof (cases "os_ReadFile fs (getCachePath ps key)")
    case (Inl ne)
    show ?thesis
    proof (cases "fst ne")
      case True
      with assms(1) nm Inl have "errorf ps (marker KeyNotFound @ '' '' @ key) = Some e"
        by (simp add: readFromDisk_def)
      moreover have "read_failure g ps fs out key KeyNotFound []"
        using nm Inl True by (simp add: read_failure_def)
      ultimately show ?thesis
        using told_apart_key [OF assms(2), of KeyNotFound key] by auto
    next
      case False
      with assms(1) nm Inl
      have "errorf ps (marker ReadFromDiskFailed @ '' '' @ key @ '': '' @ snd ne) = Some e"
        by (simp add: readFromDisk_def)
      moreover have "read_failure g ps fs out key ReadFromDiskFailed (snd ne)"
        using nm Inl False by (simp add: read_failure_def)
      ultimately show ?thesis
        using told_apart_key_cause [OF assms(2), of ReadFromDiskFailed key "snd ne"] by auto
    qed
  next
    case (Inr bs)
    with assms(1) nm obtain c o1 where d: "deserialize g bs out = (Some c, o1)"
      and "errorf ps (marker DeserializeFailed @ '' '' @ key @ '': '' @ c) = Some e"
      by (auto simp: readFromDisk_def split: prod.splits option.splits)
    moreover have "read_failure g ps fs out key DeserializeFailed c"
      using nm Inr d by (simp add: read_failure_def)
    ultimately show ?thesis
      using told_apart_key_cause [OF assms(2), of DeserializeFailed key c] by auto
  qed
qed

lemma Get_error:
  assumes "Get g ps fs key out = (Returns (Some e, out1), ps1)"
    and "CHR ''%'' \<notin> set (name ps)"
  shows "\<exists>t. reflect_TypeOf out = Some t
         \<and> (if \<not> is_Ptr t
            then told_apart ExpectedPointer (name ps) [] (type_String t) (Some e)
            else \<exists>K c. read_failure g ps fs out key K c
                   \<and> told_apart K (name ps) key c (Some e))"
proof -
  have nts: "\<not> ThreadSafe ps"
    using assms(1) Get_ThreadSafe_blocks [of ps g fs key out] by auto
  with assms(1) have G: "get g ps fs out key = (Returns (Some e, out1), ps1)"
    by (simp add: Get_def)
  then obtain t where t: "reflect_TypeOf out = Some t"
    by (auto simp: get_def split: option.splits)
  show ?thesis
  proof (cases "is_Ptr t")
    case False
    with G t have "errorf ps (error_expected_pointer @ '' but got type '' @ type_String t) = Some e"
      by (auto simp: get_def)
    with told_apart_type [OF assms(2), of "type_String t"] False t show ?thesis
      by auto
  next
    case True
    with G t obtain o1 where "readFromDisk g ps fs out key = (Some e, o1)"
      by (auto simp: get_def split: option.splits prod.splits gval.splits if_splits)
    from readFromDisk_error [OF this assms(2)] True t show ?thesis by simp
  qed
qed

text \<open>
  C7, as stated: for every returned error the predicate of its kind is true and the predicates
  of all other kinds are false, also for keys that contain the marker of another kind. The
  predicates look for their marker anywhere in the message, and the message contains the key:
  the key-not-found error of the key \<^verbatim>\<open>failed to delete\<close> satisfies \<^verbatim>\<open>IsDeleteFailed\<close> too.
\<close>

theorem kinds_not_exclusive_counterexample:
  "Get byte_gob (NewInMemory ''ns'') empty_disk ''failed to delete'' (VPtr TInt (VInt 0))
     = (Returns (Some ''pstore: ns: key not found failed to delete'', VPtr TInt (VInt 0)),
        (NewInMemory ''ns'')\<lparr>cache := [(''failed to delete'', VInt 0)]\<rparr>)
   \<and> IsKeyNotFound (Some ''pstore: ns: key not found failed to delete'') = Returns True
   \<and> IsDeleteFailed (Some ''pstore: ns: key not found failed to delete'') = Returns True"
proof -
  have g: "Get byte_gob (NewInMemory ''ns'') empty_disk ''failed to delete'' (VPtr TInt (VInt 0))
     = (Returns (Some ''pstore: ns: key not found failed to delete'', VPtr TInt (VInt 0)),
        (NewInMemory ''ns'')\<lparr>cache := [(''failed to delete'', VInt 0)]\<rparr>)"
    by (simp add: Get_eval NewInMemory_def)
  have p: "IsPStoreError (Some ''pstore: ns: key not found failed to delete'') = Returns True"
    by (simp add: IsPStoreError_def error_prefix_def)
  have k: "IsKeyNotFound (Some ''pstore: ns: key not found failed to delete'') = Returns True"
    by (simp add: IsKeyNotFound_def is_kind_def p error_key_not_found_def)
  have d: "IsDeleteFailed (Some ''pstore: ns: key not found failed to delete'') = Returns True"
    by (simp add: IsDeleteFailed_def is_kind_def p error_delete_failed_def)
  from g k d show ?thesis by simp
qed

text \<open>
  C7, amended: for a namespace without a \<^verbatim>\<open>%\<close> and for all keys, every error that
  \<^verbatim>\<open>Len\<close>, \<^verbatim>\<open>Keys\<close>, \<^verbatim>\<open>Has\<close>, \<^verbatim>\<open>Delete\<close>, \<^verbatim>\<open>Set\<close>, \<^verbatim>\<open>SaveToDisk\<close> or \<^verbatim>\<open>Get\<close> returns is a pstore
  error; the predicate of the kind that triggered it returns true; and the predicate of any
  other kind returns false unless the marker of that kind occurs in the namespace, in the key
  or in the text of the cause (the error of the operating system or of the codec, or the name
  of the type), in which case it returns true. The kind that triggered the error is the
  read-files kind for a failed listing, the delete kind for a failed removal, for the entry
  whose saving fails the save kind when making the directory or writing the file fails and
  the serialize kind when the encoder fails, the expected-pointer kind for an argument that
  is no pointer, the key-not-found kind for an in-memory-only miss or a missing file, the
  read kind for another read failure and the deserialize kind for a decoder failure.
\<close>

theorem returned_errors_have_their_kind:
  assumes "CHR ''%'' \<notin> set (name ps)"
  shows
  "(\<forall>n e ps1. Len ps fs = (Returns (n, Some e), ps1) \<longrightarrow>
       (\<exists>c. os_ReadDir fs (path ps) = Inl c
          \<and> told_apart ReadFilesFailed (name ps) [] c (Some e)))
   \<and> (\<forall>ks e ps1. Keys ps fs = (Returns (ks, Some e), ps1) \<longrightarrow>
       (\<exists>c. os_ReadDir fs (path ps) = Inl c
          \<and> told_apart ReadFilesFailed (name ps) [] c (Some e)))
   \<and> (\<forall>b e ps1. Has ps fs key = (Returns (b, Some e), ps1) \<longrightarrow>
       (\<exists>c. os_ReadDir fs (path ps) = Inl c
          \<and> told_apart ReadFilesFailed (name ps) [] c (Some e)))
   \<and> (\<forall>e ps1 fs1. Delete ps fs key = (Returns (Some e), ps1, fs1) \<longrightarrow>
       (\<exists>c. fst (os_RemoveAll fs (getCachePath ps key)) = Some c
          \<and> told_apart DeleteFailed (name ps) key c (Some e)))
   \<and> (\<forall>e ps1 fs1. Set g r ps fs key val = (Returns (Some e), ps1, fs1) \<longrightarrow>
       (\<exists>it K c. unwrap val = Returns it \<and> save_failure g ps fs key it K c
          \<and> told_apart K (name ps) key c (Some e)))
   \<and> (\<forall>e ps1 fs1. SaveToDisk g r ps fs = (Returns (Some e), ps1, fs1) \<longrightarrow>
       (\<exists>kv fs0 K c. kv \<in> set (cache ps) \<and> fault fs0 = fault fs
          \<and> save_failure g ps fs0 (fst kv) (snd kv) K c
          \<and> told_apart K (name ps) (fst kv) c (Some e)))
   \<and> (\<forall>e out1 ps1. Get g ps fs key out = (Returns (Some e, out1), ps1) \<longrightarrow>
       (\<exists>t. reflect_TypeOf out = Some t
          \<and> (if \<not> is_Ptr t
              then told_apart ExpectedPointer (name ps) [] (type_String t) (Some e)
              else \<exists>K c. read_failure g ps fs out key K c
                     \<and> told_apart K (name ps) key c (Some e))))"
proof (intro conjI allI impI)
  fix n e ps1 assume "Len ps fs = (Returns (n, Some e), ps1)"
  then show "\<exists>c. os_ReadDir fs (path ps) = Inl c
          \<and> told_apart ReadFilesFailed (name ps) [] c (Some e)"
    using assms by (rule Len_error)
next
  fix ks e ps1 assume "Keys ps fs = (Returns (ks, Some e), ps1)"
  then show "\<exists>c. os_ReadDir fs (path ps) = Inl c
          \<and> told_apart ReadFilesFailed (name ps) [] c (Some e)"
    using assms by (rule Keys_error)
next
  fix b e ps1 assume "Has ps fs key = (Returns (b, Some e), ps1)"
  then show "\<exists>c. os_ReadDir fs (path ps) = Inl c
          \<and> told_apart ReadFilesFailed (name ps) [] c (Some e)"
    using assms by (rule Has_error)
next
  fix e ps1 fs1 assume "Delete ps fs key = (Returns (Some e), ps1, fs1)"
  then show "\<exists>c. fst (os_RemoveAll fs (getCachePath ps key)) = Some c
          \<and> told_apart DeleteFailed (name ps) key c (Some e)"
    using assms by (rule Delete_error)
next
  fix e ps1 fs1 assume "Set g r ps fs key val = (Returns (Some e), ps1, fs1)"
  then show "\<exists>it K c. unwrap val = Returns it \<and> save_failure g ps fs key it K c
          \<and> told_apart K (name ps) key c (Some e)"
    using assms by (rule Set_error)
next
  fix e ps1 fs1 assume "SaveToDisk g r ps fs = (Returns (Some e), ps1, fs1)"
  then show "\<exists>kv fs0 K c. kv \<in> set (cache ps) \<and> fault fs0 = fault fs
          \<and> save_failure g ps fs0 (fst kv) (snd kv) K c
          \<and> told_apart K (name ps) (fst kv) c (Some e)"
    using assms by (rule SaveToDisk_error)
next
  fix e out1 ps1 assume "Get g ps fs key out = (Returns (Some e, out1), ps1)"
  then show "\<exists>t. reflect_TypeOf out = Some t
          \<and> (if \<not> is_Ptr t
              then told_apart ExpectedPointer (name ps) [] (type_String t) (Some e)
              else \<exists>K c. read_failure g ps fs out key K c
                     \<and> told_apart K (name ps) key c (Some e))"
    using assms by (rule Get_error)
qed

theorem returned_errors_have_their_kind_witness:
  "CHR ''%'' \<notin> set (name (NewInMemory ''ns''))
   \<and> Get byte_gob (NewInMemory ''ns'') empty_disk ''a'' (VPtr TInt (VInt 0))
     = (Returns (Some ''pstore: ns: key not found a'', VPtr TInt (VInt 0)),
        (NewInMemory ''ns'')\<lparr>cache := [(''a'', VInt 0)]\<rparr>)
   \<and> IsPStoreError (Some ''pstore: ns: key not found a'') = Returns True
   \<and> IsKeyNotFound (Some ''pstore: ns: key not found a'') = Returns True
   \<and> IsDeleteFailed (Some ''pstore: ns: key not found a'') = Returns False
   \<and> IsReadFromDiskFailed (Some ''pstore: ns: key not found a'') = Returns False
   \<and> CHR ''%'' \<notin> set (name small_disk_cache)
   \<and> Set byte_gob 0 small_disk_cache guarded_disk ''a'' (VInt 1)
     = (Returns (Some ''pstore: ns: failed to save a: open /data/ns_a.pcache: permission denied''),
        small_disk_cache\<lparr>cache := [(''a'', VInt 1)]\<rparr>, guarded_disk)
   \<and> IsSaveToDiskFailed
        (Some ''pstore: ns: failed to save a: open /data/ns_a.pcache: permission denied'')
       = Returns True
   \<and> IsSerializeFailed
        (Some ''pstore: ns: failed to save a: open /data/ns_a.pcache: permission denied'')
       = Returns False"
proof -
  let ?e1 = "''pstore: ns: key not found a''"
  let ?e2 = "''pstore: ns: failed to save a: open /data/ns_a.pcache: permission denied''"
  have n1: "CHR ''%'' \<notin> set (name (NewInMemory ''ns''))"
    and n2: "CHR ''%'' \<notin> set (name small_disk_cache)"
    by (simp_all add: fixture_defs)
  have g: "Get byte_gob (NewInMemory ''ns'') empty_disk ''a'' (VPtr TInt (VInt 0))
     = (Returns (Some ?e1, VPtr TInt (VInt 0)),
        (NewInMemory ''ns'')\<lparr>cache := [(''a'', VInt 0)]\<rparr>)"
    by (simp add: Get_eval NewInMemory_def)
  have s: "Set byte_gob 0 small_disk_cache guarded_disk ''a'' (VInt 1)
     = (Returns (Some ?e2), small_disk_cache\<lparr>cache := [(''a'', VInt 1)]\<rparr>, guarded_disk)"
    by (simp add: Set_eval fixture_defs)
  have rf: "read_failure byte_gob (NewInMemory ''ns'') empty_disk (VPtr TInt (VInt 0)) ''a'' K c
              \<longleftrightarrow> K = KeyNotFound \<and> c = []" for K c
    by (simp add: read_failure_def NewInMemory_def)
  have sf: "save_failure byte_gob small_disk_cache guarded_disk ''a'' (VInt 1) K c
              \<longleftrightarrow> K = SaveToDiskFailed \<and> c = ''open /data/ns_a.pcache: permission denied''" for K c
    by (auto simp: save_failure_def os_MkdirAll_def os_WriteFile_def serialize_def
        getCachePath_def getCacheFilename_def cache_ext_def path_String_def fixture_defs)
  from returned_errors_have_their_kind [OF n1, of empty_disk "''a''" byte_gob 0 VNil
      "VPtr TInt (VInt 0)"] g
  have t1: "told_apart KeyNotFound ''ns'' ''a'' [] (Some ?e1)"
    by (simp add: rf) (simp add: NewInMemory_def)
  from returned_errors_have_their_kind [OF n2, of guarded_disk "''a''" byte_gob 0 "VInt 1" VNil] s
  have t2: "told_apart SaveToDiskFailed ''ns'' ''a''
              ''open /data/ns_a.pcache: permission denied'' (Some ?e2)"
    by (simp add: sf) (simp add: fixture_defs)
  from t1 have p1: "IsPStoreError (Some ?e1) = Returns True"
    and k1: "\<And>k. Is k (Some ?e1)
               = Returns (k = KeyNotFound \<or> sublist (marker k) ''ns'' \<or> sublist (marker k) ''a''
                          \<or> sublist (marker k) [])"
    by (simp_all add: told_apart_def)
  from t2 have k2: "\<And>k. Is k (Some ?e2)
               = Returns (k = SaveToDiskFailed \<or> sublist (marker k) ''ns''
                          \<or> sublist (marker k) ''a''
                          \<or> sublist (marker k) ''open /data/ns_a.pcache: permission denied'')"
    by (simp add: told_apart_def)
  have a: "IsKeyNotFound (Some ?e1) = Returns True"
    using k1 [of KeyNotFound] by simp
  have b: "IsDeleteFailed (Some ?e1) = Returns False"
    using k1 [of DeleteFailed] by (simp add: marker_defs sublist_Cons_right)
  have c: "IsReadFromDiskFailed (Some ?e1) = Returns False"
    using k1 [of ReadFromDiskFailed] by (simp add: marker_defs sublist_Cons_right)
  have d: "IsSaveToDiskFailed (Some ?e2) = Returns True"
    using k2 [of SaveToDiskFailed] by simp
  have e: "IsSerializeFailed (Some ?e2) = Returns False"
    using k2 [of SerializeFailed] by (simp add: marker_defs sublist_Cons_right)
  from n1 n2 g s p1 a b c d e show ?thesis by simp
qed

end
